theory Spec2Isabelle
  imports Complex_Main "HOL-Library.AList"
begin

section \<open>Python values, exceptions and wire structures\<close>

text \<open>
  The consumer of \<^verbatim>\<open>kafka/consumer/new.py\<close> is dynamically typed: the arguments of
  \<^verbatim>\<open>set_topic_partitions\<close> are inspected with \<^verbatim>\<open>isinstance\<close>. The values it can
  tell apart are strings, ints, tuples, lists and dicts; \<open>VNone\<close> stands for a value of
  any other type. A dict is the list of its items in iteration order.
\<close>

datatype pyval =
    VNone
  | VInt int
  | VStr string
  | VTuple "pyval list"
  | VList "pyval list"
  | VDict "(pyval \<times> pyval) list"

text \<open>
  Every exception the consumer raises or lets through. \<open>BrokerError\<close> is any broker
  error code that the consumer has no handler for; \<open>DeserializerError\<close> is whatever
  the caller's \<^verbatim>\<open>deserializer_class\<close> raises.
\<close>

datatype error =
    KafkaConfigurationError
  | UnknownTopicOrPartitionError
  | OffsetOutOfRangeError
  | NotLeaderForPartitionError
  | RequestTimedOutError
  | FailedPayloadsError
  | KafkaUnavailableError
  | ConsumerTimeout
  | BrokerError nat
  | DeserializerError
  | TypeError
  | ValueError
  | KeyError
  | AttributeError
  | AssertionError

type_synonym topic_partition = "string \<times> int"

text \<open>
  The request and response tuples of \<^verbatim>\<open>kafka.common\<close>, with the fields the consumer
  reads. An explicit starting offset given by the caller is stored unchecked, so the offset
  of a fetch request is a \<open>pyval\<close>. A response carries its error already classified
  (\<open>None\<close> is error code 0).
\<close>

datatype OffsetFetchRequest = OffsetFetchRequest (ofq_topic: string) (ofq_partition: int)

datatype OffsetCommitRequest =
  OffsetCommitRequest (ocq_topic: string) (ocq_partition: int) (ocq_offset: int)
    (ocq_metadata: string)

datatype OffsetRequest =
  OffsetRequest (oq_topic: string) (oq_partition: int) (oq_time: int) (oq_max_offsets: int)

datatype FetchRequest =
  FetchRequest (fq_topic: string) (fq_partition: int) (fq_offset: pyval) (fq_max_bytes: int)

datatype OffsetFetchResponse =
  OffsetFetchResponse (ofr_topic: string) (ofr_partition: int) (ofr_offset: int)
    (ofr_error: "error option")

datatype OffsetCommitResponse =
  OffsetCommitResponse (ocr_topic: string) (ocr_partition: int) (ocr_error: "error option")

datatype OffsetResponse =
  OffsetResponse (or_topic: string) (or_partition: int) (or_error: "error option")
    (or_offsets: "int list")

datatype Message = Message (m_key: "string option") (m_value: string)

datatype FetchResponse =
  FetchResponse (fr_topic: string) (fr_partition: int) (fr_error: "error option")
    (fr_highwaterMark: int) (fr_messages: "(int \<times> Message) list")

datatype KafkaMessage =
  KafkaMessage (km_topic: string) (km_partition: int) (km_offset: int)
    (km_key: "string option") (km_value: pyval)

text \<open>
  Modelled from the spec: \<^verbatim>\<open>check_error\<close> of \<^verbatim>\<open>kafka.common\<close> is not among the
  sources. It raises the exception that belongs to the response's error code and returns
  normally for code 0.
\<close>

definition check_error :: "error option \<Rightarrow> error + unit" where
  "check_error e = (case e of None \<Rightarrow> Inr () | Some err \<Rightarrow> Inl err)"

section \<open>The transport and the clock\<close>

text \<open>
  \<^verbatim>\<open>KafkaClient\<close> is an external collaborator. It is a parameter of the model: an
  oracle that answers each request or raises, the same request always in the same way, and
  a clock whose \<open>n\<close>-th reading is \<open>clock cl n\<close>. \<^verbatim>\<open>time.time()\<close> returns a float,
  taken here as a real number. Nothing is assumed about the readings: the clock of
  \<^verbatim>\<open>time.time()\<close> may stand still between two calls or be set back.
\<close>

record client =
  load_metadata_for_topics :: "error + (string \<rightharpoonup> int list)"
  send_offset_fetch_request ::
    "string option \<Rightarrow> OffsetFetchRequest list \<Rightarrow> error + OffsetFetchResponse list"
  send_offset_commit_request ::
    "string option \<Rightarrow> OffsetCommitRequest list \<Rightarrow> error + OffsetCommitResponse list"
  send_offset_request :: "OffsetRequest list \<Rightarrow> error + OffsetResponse list"
  send_fetch_request :: "FetchRequest list \<Rightarrow> int \<Rightarrow> int \<Rightarrow> error + FetchResponse list"
  clock :: "nat \<Rightarrow> real"

text \<open>What went over the network, in order: kept in the state so that "no request was
  issued" can be said.\<close>

datatype net_call =
    MetadataCall
  | OffsetFetchCall "string option" "OffsetFetchRequest list"
  | OffsetCommitCall "string option" "OffsetCommitRequest list"
  | OffsetCall "OffsetRequest list"
  | FetchCall "FetchRequest list"

section \<open>The consumer's state\<close>

record config =
  group_id :: "string option"
  auto_offset_reset :: string
  auto_commit_enable :: bool
  auto_commit_interval_ms :: int
  consumer_timeout_ms :: int
  fetch_message_max_bytes :: int
  fetch_min_bytes :: int
  fetch_wait_max_ms :: int
  refresh_leader_backoff_ms :: int
  deserializer_class :: "string \<Rightarrow> error + pyval"

text \<open>\<^verbatim>\<open>OffsetsStruct\<close>: four dicts keyed by (topic, partition), each the list of its
  items; \<open>AList.update\<close> overwrites a key in place or appends a new one.\<close>

record OffsetsStruct =
  fetch_offsets :: "(topic_partition \<times> pyval) list"
  highwater_offsets :: "(topic_partition \<times> int option) list"
  commit_offsets :: "(topic_partition \<times> int option) list"
  task_done_offsets :: "(topic_partition \<times> int option) list"

text \<open>
  The generator object made by \<^verbatim>\<open>fetch_messages()\<close>: not started yet, suspended at
  its \<^verbatim>\<open>yield\<close> (with the response being read, the messages of it still to come and the
  responses after it), or finished.
\<close>

datatype generator =
    NotStarted
  | Suspended FetchResponse "(int \<times> Message) list" "FetchResponse list"
  | Finished

text \<open>\<^verbatim>\<open>self._consumer_timeout\<close>: not set before the first \<^verbatim>\<open>next()\<close>, then
  \<^verbatim>\<open>False\<close> or a deadline.\<close>

datatype timeout = Unset | Disabled | Deadline real

record consumer =
  config :: config
  topic_partitions :: "string \<rightharpoonup> int list"
  topics :: "topic_partition list"
  offsets :: OffsetsStruct
  msg_iter :: "generator option"
  next_commit :: "real option"
  consumer_timeout :: timeout
  ticks :: nat
  sent :: "net_call list"

text \<open>Python truth of \<^verbatim>\<open>group_id\<close>: \<^verbatim>\<open>None\<close> and the empty string are false.\<close>

definition truthy :: "string option \<Rightarrow> bool" where
  "truthy g = (g \<noteq> None \<and> g \<noteq> Some [])"

text \<open>\<^verbatim>\<open>time.time()\<close>: the next reading of the clock.\<close>

definition time_time :: "client \<Rightarrow> consumer \<Rightarrow> real \<times> consumer" where
  "time_time cl st = (clock cl (ticks st), st\<lparr>ticks := Suc (ticks st)\<rparr>)"

definition transmit :: "net_call \<Rightarrow> consumer \<Rightarrow> consumer" where
  "transmit c st = st\<lparr>sent := sent st @ [c]\<rparr>"

section \<open>Marking messages done\<close>

text \<open>
  \<^verbatim>\<open>task_done\<close>, lines 198 to 221. The two warnings only log. The subtraction
  \<^verbatim>\<open>self._offsets.commit[topic_partition] - 1\<close> of line 216 is evaluated before the
  test for \<^verbatim>\<open>None\<close> of line 217, so a commit cursor of \<^verbatim>\<open>None\<close> is a TypeError;
  a partition that is not assigned is a KeyError at the first dict read.
\<close>

definition task_done :: "KafkaMessage \<Rightarrow> consumer \<Rightarrow> (error + unit) \<times> consumer" where
  "task_done message st =
     (let topic_partition = (km_topic message, km_partition message);
          offset = km_offset message
      in case map_of (task_done_offsets (offsets st)) topic_partition of
           None \<Rightarrow> (Inl KeyError, st)
         | Some prev_done \<Rightarrow>
            (case map_of (commit_offsets (offsets st)) topic_partition of
               None \<Rightarrow> (Inl KeyError, st)
             | Some None \<Rightarrow> (Inl TypeError, st)
             | Some (Some c) \<Rightarrow>
                 (Inr (), st\<lparr>offsets := (offsets st)\<lparr>task_done_offsets :=
                    AList.update topic_partition (Some offset)
                      (task_done_offsets (offsets st))\<rparr>\<rparr>)))"

section \<open>The offset reset policy\<close>

text \<open>
  \<^verbatim>\<open>get_partition_offsets\<close>, lines 539 to 551. The tuple pattern \<^verbatim>\<open>(resp,)\<close> needs
  exactly one response.
\<close>

definition get_partition_offsets ::
  "client \<Rightarrow> string \<Rightarrow> int \<Rightarrow> int \<Rightarrow> int \<Rightarrow> consumer \<Rightarrow> (error + int list) \<times> consumer" where
  "get_partition_offsets cl topic part request_time num_offsets st =
     (let reqs = [OffsetRequest topic part request_time num_offsets];
          st1 = transmit (OffsetCall reqs) st
      in case send_offset_request cl reqs of
           Inl e \<Rightarrow> (Inl e, st1)
         | Inr [resp] \<Rightarrow>
             (case check_error (or_error resp) of
                Inl e \<Rightarrow> (Inl e, st1)
              | Inr u \<Rightarrow>
                  if or_topic resp \<noteq> topic then (Inl AssertionError, st1)
                  else if or_partition resp \<noteq> part then (Inl AssertionError, st1)
                  else (Inr (or_offsets resp), st1))
         | Inr resps \<Rightarrow> (Inl ValueError, st1))"

definition LATEST :: int where "LATEST = - 1"
definition EARLIEST :: int where "EARLIEST = - 2"

text \<open>
  \<^verbatim>\<open>_reset_partition_offset\<close>, lines 511 to 537. \<open>exc\<close> is the exception being
  handled when the method is called (\<^verbatim>\<open>sys.exc_info()\<close>): with an unknown policy name
  the bare \<^verbatim>\<open>raise\<close> re-raises it, and outside a handler a fresh OffsetOutOfRangeError
  is raised.
\<close>

definition reset_partition_offset ::
  "client \<Rightarrow> error option \<Rightarrow> topic_partition \<Rightarrow> consumer \<Rightarrow> (error + int) \<times> consumer" where
  "reset_partition_offset cl exc topic_partition st =
     (let (topic, part) = topic_partition;
          RequestTime =
            (if auto_offset_reset (config st) = ''largest'' then Some LATEST
             else if auto_offset_reset (config st) = ''smallest'' then Some EARLIEST
             else None)
      in case RequestTime of
           None \<Rightarrow> (case exc of None \<Rightarrow> (Inl OffsetOutOfRangeError, st)
                               | Some e \<Rightarrow> (Inl e, st))
         | Some t \<Rightarrow>
             (case get_partition_offsets cl topic part t 1 st of
                (Inl e, st1) \<Rightarrow> (Inl e, st1)
              | (Inr [offset], st1) \<Rightarrow> (Inr offset, st1)
              | (Inr os, st1) \<Rightarrow> (Inl ValueError, st1)))"

section \<open>Committing\<close>

text \<open>\<^verbatim>\<open>_set_next_auto_commit_time\<close>, line 233, and \<^verbatim>\<open>_should_auto_commit\<close>, lines
  223 to 230. \<^verbatim>\<open>self._next_commit\<close> is set by \<^verbatim>\<open>configure\<close> only when auto-commit
  is enabled (\<open>None\<close>: the attribute does not exist); a deadline of 0.0 is false.\<close>

definition set_next_auto_commit_time :: "client \<Rightarrow> consumer \<Rightarrow> consumer" where
  "set_next_auto_commit_time cl st =
     (let (now, st1) = time_time cl st
      in st1\<lparr>next_commit :=
           Some (now + real_of_int (auto_commit_interval_ms (config st)) / 1000)\<rparr>)"

definition should_auto_commit :: "client \<Rightarrow> consumer \<Rightarrow> (error + bool) \<times> consumer" where
  "should_auto_commit cl st =
     (if \<not> auto_commit_enable (config st) then (Inr False, st)
      else case next_commit st of
             None \<Rightarrow> (Inl AttributeError, st)
           | Some deadline \<Rightarrow>
               if deadline = 0 then (Inr False, st)
               else (let (now, st1) = time_time cl st in (Inr (now \<ge> deadline), st1)))"

text \<open>
  The loop of lines 253 to 269 of \<^verbatim>\<open>commit\<close>, over the items of the task-done dict;
  \<open>cm\<close> is \<^verbatim>\<open>self._offsets.commit\<close> and \<open>commits\<close> the list built so far.
\<close>

fun commit_candidates ::
  "(topic_partition \<times> int option) list \<Rightarrow> (topic_partition \<times> int option) list \<Rightarrow>
   OffsetCommitRequest list \<Rightarrow> error + OffsetCommitRequest list" where
  "commit_candidates cm [] commits = Inr commits"
| "commit_candidates cm ((topic_partition, task_done_offset) # items) commits =
     (case task_done_offset of
        None \<Rightarrow> commit_candidates cm items commits
      | Some td \<Rightarrow>
          (let commit_offset = td + 1
           in case map_of cm topic_partition of
                None \<Rightarrow> Inl KeyError
              | Some c \<Rightarrow>
                  if Some commit_offset = c then commit_candidates cm items commits
                  else commit_candidates cm items
                         (commits @ [OffsetCommitRequest (fst topic_partition)
                                       (snd topic_partition) commit_offset []])))"

text \<open>The loop of lines 277 to 281 over the acknowledgments: \<^verbatim>\<open>check_error\<close> first,
  then the task-done cursor is read from the store and the commit cursor written.\<close>

fun commit_acks :: "OffsetCommitResponse list \<Rightarrow> consumer \<Rightarrow> (error + unit) \<times> consumer" where
  "commit_acks [] st = (Inr (), st)"
| "commit_acks (r # resps) st =
     (case check_error (ocr_error r) of
        Inl e \<Rightarrow> (Inl e, st)
      | Inr u \<Rightarrow>
          (let topic_partition = (ocr_topic r, ocr_partition r)
           in case map_of (task_done_offsets (offsets st)) topic_partition of
                None \<Rightarrow> (Inl KeyError, st)
              | Some None \<Rightarrow> (Inl TypeError, st)
              | Some (Some td) \<Rightarrow>
                  commit_acks resps
                    (st\<lparr>offsets := (offsets st)\<lparr>commit_offsets :=
                       AList.update topic_partition (Some (td + 1))
                         (commit_offsets (offsets st))\<rparr>\<rparr>)))"

text \<open>\<^verbatim>\<open>commit\<close>, lines 235 to 290.\<close>

definition commit :: "client \<Rightarrow> consumer \<Rightarrow> (error + bool) \<times> consumer" where
  "commit cl st =
     (if \<not> truthy (group_id (config st)) then (Inl KafkaConfigurationError, st)
      else case commit_candidates (commit_offsets (offsets st))
                  (task_done_offsets (offsets st)) [] of
             Inl e \<Rightarrow> (Inl e, st)
           | Inr commits \<Rightarrow>
               if commits \<noteq> [] then
                 (let st1 = transmit (OffsetCommitCall (group_id (config st)) commits) st
                  in case send_offset_commit_request cl (group_id (config st)) commits of
                       Inl e \<Rightarrow> (Inl e, st1)
                     | Inr resps \<Rightarrow>
                         (case commit_acks resps st1 of
                            (Inl e, st2) \<Rightarrow> (Inl e, st2)
                          | (Inr u, st2) \<Rightarrow>
                              (Inr True,
                               if auto_commit_enable (config st2)
                               then set_next_auto_commit_time cl st2 else st2)))
               else (Inr False, st))"

text \<open>
  The candidate list in the words of the specification, to compare the loop with: for every
  partition with a non-null task-done cursor the candidate offset is that cursor plus one,
  and the partitions whose candidate equals the recorded commit cursor are left out.
\<close>

definition spec_commit_candidates ::
  "(topic_partition \<times> int option) list \<Rightarrow> (topic_partition \<times> int option) list \<Rightarrow>
   OffsetCommitRequest list" where
  "spec_commit_candidates cm items =
     [OffsetCommitRequest (fst tp) (snd tp) (td + 1) [] .
        (tp, Some td) \<leftarrow> items, map_of cm tp \<noteq> Some (Some (td + 1))]"

section \<open>Partition resolution\<close>

text \<open>
  Modelled from the spec: \<^verbatim>\<open>get_partition_ids_for_topic\<close> of the transport is not
  among the sources. It enumerates the partitions the metadata has for a topic, none for
  a topic the metadata does not know.
\<close>

definition get_partition_ids_for_topic :: "consumer \<Rightarrow> string \<Rightarrow> int list" where
  "get_partition_ids_for_topic st topic =
     (case topic_partitions st topic of None \<Rightarrow> [] | Some ids \<Rightarrow> ids)"

text \<open>Lists and dicts cannot be dict keys; a tuple can if its members can.\<close>

fun hashable :: "pyval \<Rightarrow> bool" where
  "hashable (VList xs) = False"
| "hashable (VDict kvs) = False"
| "hashable (VTuple xs) = list_all hashable xs"
| "hashable v = True"

text \<open>
  A call of \<^verbatim>\<open>set_topic_partitions\<close> that raises leaves the consumer half built and
  \<^verbatim>\<open>__init__\<close> unfinished, so the functions of this section return either the error
  or the new state.

  \<^verbatim>\<open>_consume_topic_partition\<close>, lines 428 to 442. On success the pair is known to be
  a string and an int, and is returned with the state.
\<close>

definition consume_topic_partition ::
  "pyval \<Rightarrow> pyval \<Rightarrow> consumer \<Rightarrow> error + topic_partition \<times> consumer" where
  "consume_topic_partition topic part st =
     (case topic of
        VStr t \<Rightarrow>
          (case part of
             VInt p \<Rightarrow>
               if topic_partitions st t = None then Inl UnknownTopicOrPartitionError
               else if p \<notin> set (get_partition_ids_for_topic st t)
                 then Inl UnknownTopicOrPartitionError
               else Inr ((t, p), st\<lparr>topics := topics st @ [(t, p)]\<rparr>)
           | _ \<Rightarrow> Inl KafkaConfigurationError)
      | _ \<Rightarrow> Inl KafkaConfigurationError)"

definition store_fetch :: "topic_partition \<Rightarrow> pyval \<Rightarrow> consumer \<Rightarrow> consumer" where
  "store_fetch tp v st =
     st\<lparr>offsets := (offsets st)\<lparr>fetch_offsets :=
          AList.update tp v (fetch_offsets (offsets st))\<rparr>\<rparr>"

text \<open>\<^verbatim>\<open>for partition in ...: self._consume_topic_partition(topic, partition)\<close>, lines
  362 and 386.\<close>

fun consume_partitions :: "pyval \<Rightarrow> pyval list \<Rightarrow> consumer \<Rightarrow> error + consumer" where
  "consume_partitions topic [] st = Inr st"
| "consume_partitions topic (p # ps) st =
     (case consume_topic_partition topic p st of
        Inl e \<Rightarrow> Inl e
      | Inr (tp, st1) \<Rightarrow> consume_partitions topic ps st1)"

text \<open>
  The tuple branch, lines 366 to 371. \<^verbatim>\<open>(topic, partition) = arg[0:2]\<close> needs two
  members; a tuple of three stores its third member as the fetch cursor, under a key that
  must be hashable. The source stores the cursor before it validates the pair; as a call
  that raises returns no state here, the order does not show.
\<close>

definition consume_tuple :: "pyval list \<Rightarrow> consumer \<Rightarrow> error + consumer" where
  "consume_tuple arg st =
     (case take 2 arg of
        [topic, part] \<Rightarrow>
          if length arg = 3 \<and> \<not> (hashable topic \<and> hashable part) then Inl TypeError
          else (case consume_topic_partition topic part st of
                  Inl e \<Rightarrow> Inl e
                | Inr (tp, st1) \<Rightarrow>
                    Inr (if length arg = 3 then store_fetch tp (arg ! 2) st1 else st1))
      | _ \<Rightarrow> Inl ValueError)"

text \<open>
  The dict branch, lines 375 to 395, over the items of the dict. A key that is a tuple is
  passed as \<^verbatim>\<open>*key\<close>, so it needs exactly two members. A key that is neither a string
  nor a tuple matches no branch, and there is no \<^verbatim>\<open>else\<close>: the item is passed over.
\<close>

fun consume_dict :: "(pyval \<times> pyval) list \<Rightarrow> consumer \<Rightarrow> error + consumer" where
  "consume_dict [] st = Inr st"
| "consume_dict ((key, val) # items) st =
     (case key of
        VStr t \<Rightarrow>
          (case val of
             VInt p \<Rightarrow>
               (case consume_topic_partition key val st of
                  Inl e \<Rightarrow> Inl e
                | Inr (tp, st1) \<Rightarrow> consume_dict items st1)
           | VList ps \<Rightarrow>
               (case consume_partitions key ps st of
                  Inl e \<Rightarrow> Inl e
                | Inr st1 \<Rightarrow> consume_dict items st1)
           | VTuple ps \<Rightarrow>
               (case consume_partitions key ps st of
                  Inl e \<Rightarrow> Inl e
                | Inr st1 \<Rightarrow> consume_dict items st1)
           | _ \<Rightarrow> Inl KafkaConfigurationError)
      | VTuple ks \<Rightarrow>
          (case ks of
             [topic, part] \<Rightarrow>
               (case consume_topic_partition topic part st of
                  Inl e \<Rightarrow> Inl e
                | Inr (tp, st1) \<Rightarrow> consume_dict items (store_fetch tp val st1))
           | _ \<Rightarrow> Inl TypeError)
      | _ \<Rightarrow> consume_dict items st)"

text \<open>The loop over the arguments, lines 357 to 398.\<close>

fun consume_args :: "pyval list \<Rightarrow> consumer \<Rightarrow> error + consumer" where
  "consume_args [] st = Inr st"
| "consume_args (arg # args) st =
     (case (case arg of
              VStr t \<Rightarrow> consume_partitions arg (map VInt (get_partition_ids_for_topic st t)) st
            | VTuple xs \<Rightarrow> consume_tuple xs st
            | VDict items \<Rightarrow> consume_dict items st
            | _ \<Rightarrow> Inl KafkaConfigurationError) of
        Inl e \<Rightarrow> Inl e
      | Inr st1 \<Rightarrow> consume_args args st1)"

text \<open>
  \<^verbatim>\<open>_get_commit_offsets\<close>, lines 127 to 148: one lookup for each entry of
  \<^verbatim>\<open>self._topics\<close>. An UnknownTopicOrPartitionError of the response is swallowed,
  any other error is raised; the offset of the response is read in both cases.
\<close>

fun get_commit_offsets_loop ::
  "client \<Rightarrow> topic_partition list \<Rightarrow> consumer \<Rightarrow> error + consumer" where
  "get_commit_offsets_loop cl [] st = Inr st"
| "get_commit_offsets_loop cl (topic_partition # tps) st =
     (let reqs = [OffsetFetchRequest (fst topic_partition) (snd topic_partition)];
          st1 = transmit (OffsetFetchCall (group_id (config st)) reqs) st
      in case send_offset_fetch_request cl (group_id (config st)) reqs of
           Inl e \<Rightarrow> Inl e
         | Inr [resp] \<Rightarrow>
             (case check_error (ofr_error resp) of
                Inl e \<Rightarrow>
                  if e = UnknownTopicOrPartitionError
                  then get_commit_offsets_loop cl tps
                         (st1\<lparr>offsets := (offsets st1)\<lparr>commit_offsets :=
                            AList.update topic_partition
                              (if ofr_offset resp = - 1 then None else Some (ofr_offset resp))
                              (commit_offsets (offsets st1))\<rparr>\<rparr>)
                  else Inl e
              | Inr u \<Rightarrow>
                  get_commit_offsets_loop cl tps
                    (st1\<lparr>offsets := (offsets st1)\<lparr>commit_offsets :=
                       AList.update topic_partition
                         (if ofr_offset resp = - 1 then None else Some (ofr_offset resp))
                         (commit_offsets (offsets st1))\<rparr>\<rparr>))
         | Inr resps \<Rightarrow> Inl ValueError)"

definition get_commit_offsets :: "client \<Rightarrow> consumer \<Rightarrow> error + consumer" where
  "get_commit_offsets cl st = get_commit_offsets_loop cl (topics st) st"

text \<open>
  The loop of lines 405 to 420, which fills in the commit and fetch cursors that are
  missing. \<^verbatim>\<open>set_topic_partitions\<close> is taken to be called outside an exception handler,
  so the reset policy sees no exception in flight.
\<close>

fun update_missing :: "client \<Rightarrow> topic_partition list \<Rightarrow> consumer \<Rightarrow> error + consumer" where
  "update_missing cl [] st = Inr st"
| "update_missing cl (topic_partition # tps) st =
     (let st1 = (if map_of (commit_offsets (offsets st)) topic_partition = None
                 then st\<lparr>offsets := (offsets st)\<lparr>commit_offsets :=
                        AList.update topic_partition None (commit_offsets (offsets st))\<rparr>\<rparr>
                 else st)
      in if map_of (fetch_offsets (offsets st1)) topic_partition = None then
           (case map_of (commit_offsets (offsets st1)) topic_partition of
              Some (Some c) \<Rightarrow> update_missing cl tps (store_fetch topic_partition (VInt c) st1)
            | _ \<Rightarrow>
                (case reset_partition_offset cl None topic_partition st1 of
                   (Inl e, st2) \<Rightarrow> Inl e
                 | (Inr v, st2) \<Rightarrow>
                     update_missing cl tps (store_fetch topic_partition (VInt v) st2)))
         else update_missing cl tps st1)"

text \<open>\<^verbatim>\<open>_reset_highwater_offsets\<close> and \<^verbatim>\<open>_reset_task_done_offsets\<close>, lines 150 to
  156.\<close>

definition reset_highwater_offsets :: "consumer \<Rightarrow> consumer" where
  "reset_highwater_offsets st =
     st\<lparr>offsets := (offsets st)\<lparr>highwater_offsets :=
          fold (\<lambda>tp hw. AList.update tp None hw) (topics st)
            (highwater_offsets (offsets st))\<rparr>\<rparr>"

definition reset_task_done_offsets :: "consumer \<Rightarrow> consumer" where
  "reset_task_done_offsets st =
     st\<lparr>offsets := (offsets st)\<lparr>task_done_offsets :=
          fold (\<lambda>tp td. AList.update tp None td) (topics st)
            (task_done_offsets (offsets st))\<rparr>\<rparr>"

text \<open>\<^verbatim>\<open>set_topic_partitions\<close>, lines 318 to 426.\<close>

definition set_topic_partitions :: "client \<Rightarrow> pyval list \<Rightarrow> consumer \<Rightarrow> error + consumer" where
  "set_topic_partitions cl args st =
     (case load_metadata_for_topics cl of
        Inl e \<Rightarrow> Inl e
      | Inr metadata \<Rightarrow>
          (let st1 = (transmit MetadataCall st)
                       \<lparr>topic_partitions := metadata, topics := [],
                        offsets := \<lparr>fetch_offsets = [], highwater_offsets = [],
                                    commit_offsets = [], task_done_offsets = []\<rparr>\<rparr>
           in case consume_args args st1 of
                Inl e \<Rightarrow> Inl e
              | Inr st2 \<Rightarrow>
                  (case (if truthy (group_id (config st2)) then get_commit_offsets cl st2
                         else Inr st2) of
                     Inl e \<Rightarrow> Inl e
                   | Inr st3 \<Rightarrow>
                       (case update_missing cl (topics st3) st3 of
                          Inl e \<Rightarrow> Inl e
                        | Inr st4 \<Rightarrow>
                            Inr (reset_task_done_offsets (reset_highwater_offsets st4))))))"

section \<open>Fetching\<close>

text \<open>\<^verbatim>\<open>_set_consumer_timeout_start\<close> and \<^verbatim>\<open>_check_consumer_timeout\<close>, lines 567 to
  574. In the test \<^verbatim>\<open>self._consumer_timeout and time.time() > ...\<close> a deadline of 0.0
  is false like \<^verbatim>\<open>False\<close>, and the clock is read only behind a true deadline.\<close>

definition set_consumer_timeout_start :: "client \<Rightarrow> consumer \<Rightarrow> consumer" where
  "set_consumer_timeout_start cl st =
     (if consumer_timeout_ms (config st) \<ge> 0 then
        (let (now, st1) = time_time cl st
         in st1\<lparr>consumer_timeout :=
              Deadline (now + real_of_int (consumer_timeout_ms (config st)) / 1000)\<rparr>)
      else st\<lparr>consumer_timeout := Disabled\<rparr>)"

definition check_consumer_timeout :: "client \<Rightarrow> consumer \<Rightarrow> (error + unit) \<times> consumer" where
  "check_consumer_timeout cl st =
     (case consumer_timeout st of
        Unset \<Rightarrow> (Inl AttributeError, st)
      | Disabled \<Rightarrow> (Inr (), st)
      | Deadline deadline \<Rightarrow>
          if deadline = 0 then (Inr (), st)
          else (let (now, st1) = time_time cl st
                in if now > deadline then (Inl ConsumerTimeout, st1) else (Inr (), st1)))"

text \<open>
  \<^verbatim>\<open>_refresh_metadata_on_error\<close>, lines 553 to 565: a loop with no bound, so its
  result is optional and \<open>None\<close> means that it never returns. The sleep only passes time.
\<close>

partial_function (option) refresh_metadata_on_error ::
  "client \<Rightarrow> consumer \<Rightarrow> ((error + unit) \<times> consumer) option" where
  "refresh_metadata_on_error cl st =
     (case load_metadata_for_topics cl of
        Inr metadata \<Rightarrow> Some (Inr (), (transmit MetadataCall st)\<lparr>topic_partitions := metadata\<rparr>)
      | Inl e \<Rightarrow>
          if e = KafkaUnavailableError then
            (case check_consumer_timeout cl (transmit MetadataCall st) of
               (Inl e', st1) \<Rightarrow> Some (Inl e', st1)
             | (Inr u, st1) \<Rightarrow> refresh_metadata_on_error cl st1)
          else Some (Inl e, transmit MetadataCall st))"

text \<open>What one pull from the generator of \<^verbatim>\<open>fetch_messages\<close> gives.\<close>

datatype pull = Yield KafkaMessage | StopIteration | Raise error

text \<open>The requests of a fetch round, lines 450 to 453: one for each item of the fetch
  dict.\<close>

definition fetch_requests :: "consumer \<Rightarrow> FetchRequest list" where
  "fetch_requests st =
     map (\<lambda>(topic_partition, offset).
            FetchRequest (fst topic_partition) (snd topic_partition) offset
              (fetch_message_max_bytes (config st)))
         (fetch_offsets (offsets st))"

text \<open>
  The body of the message loop, lines 498 to 509, for the message \<open>om\<close> of response
  \<open>resp\<close>: deserialize, advance the fetch cursor, yield. \<open>ms\<close> and \<open>rest\<close> are the
  messages and the responses still to come, which the suspended generator keeps. An
  exception ends the generator.
\<close>

definition emit ::
  "FetchResponse \<Rightarrow> int \<times> Message \<Rightarrow> (int \<times> Message) list \<Rightarrow> FetchResponse list \<Rightarrow>
   consumer \<Rightarrow> pull \<times> generator \<times> consumer" where
  "emit resp om ms rest st =
     (let (offset, message) = om
      in case deserializer_class (config st) (m_value message) of
           Inl e \<Rightarrow> (Raise e, Finished, st)
         | Inr v \<Rightarrow>
             (Yield (KafkaMessage (fr_topic resp) (fr_partition resp) offset
                       (m_key message) v),
              Suspended resp ms rest,
              store_fetch (fr_topic resp, fr_partition resp) (VInt (offset + 1)) st))"

text \<open>
  The loop over the responses, lines 467 to 509, run until the generator yields, raises or
  comes to its end. The warning of the out-of-range branch reads
  \<^verbatim>\<open>offsets[topic_partition]\<close>, a KeyError for a partition without fetch cursor
  (\<^verbatim>\<open>offsets\<close> is the fetch dict itself). The messages of a response are a list here:
  decoding them is the transport's work and is taken not to raise.
\<close>

fun responses_loop ::
  "client \<Rightarrow> FetchResponse list \<Rightarrow> consumer \<Rightarrow> (pull \<times> generator \<times> consumer) option" where
  "responses_loop cl [] st = Some (StopIteration, Finished, st)"
| "responses_loop cl (resp # rest) st =
     (let topic_partition = (fr_topic resp, fr_partition resp)
      in case check_error (fr_error resp) of
           Inl e \<Rightarrow>
             if e = OffsetOutOfRangeError then
               (case map_of (fetch_offsets (offsets st)) topic_partition of
                  None \<Rightarrow> Some (Raise KeyError, Finished, st)
                | Some previous \<Rightarrow>
                    (case reset_partition_offset cl (Some e) topic_partition st of
                       (Inl e', st1) \<Rightarrow> Some (Raise e', Finished, st1)
                     | (Inr v, st1) \<Rightarrow>
                         responses_loop cl rest (store_fetch topic_partition (VInt v) st1)))
             else if e = NotLeaderForPartitionError then
               (case refresh_metadata_on_error cl st of
                  None \<Rightarrow> None
                | Some (Inl e', st1) \<Rightarrow> Some (Raise e', Finished, st1)
                | Some (Inr u, st1) \<Rightarrow> responses_loop cl rest st1)
             else if e = RequestTimedOutError then responses_loop cl rest st
             else Some (Raise e, Finished, st)
         | Inr u \<Rightarrow>
             (let st1 = st\<lparr>offsets := (offsets st)\<lparr>highwater_offsets :=
                          AList.update topic_partition (Some (fr_highwaterMark resp))
                            (highwater_offsets (offsets st))\<rparr>\<rparr>
              in case fr_messages resp of
                   [] \<Rightarrow> responses_loop cl rest st1
                 | om # ms \<Rightarrow> Some (emit resp om ms rest st1)))"

text \<open>\<^verbatim>\<open>fetch_messages()\<close> makes the generator and runs nothing of its body.\<close>

definition fetch_messages :: generator where
  "fetch_messages = NotStarted"

text \<open>
  One \<^verbatim>\<open>next()\<close> of the generator. The first one runs lines 446 to 465 (build the
  requests, send them; a FailedPayloadsError refreshes the metadata and ends the batch)
  and enters the loop; a later one resumes after the \<^verbatim>\<open>yield\<close>.
\<close>

definition msg_iter_next ::
  "client \<Rightarrow> generator \<Rightarrow> consumer \<Rightarrow> (pull \<times> generator \<times> consumer) option" where
  "msg_iter_next cl g st =
     (case g of
        NotStarted \<Rightarrow>
          (let fetches = fetch_requests st;
               st1 = transmit (FetchCall fetches) st
           in case send_fetch_request cl fetches (fetch_wait_max_ms (config st))
                     (fetch_min_bytes (config st)) of
                Inl e \<Rightarrow>
                  if e = FailedPayloadsError then
                    (case refresh_metadata_on_error cl st1 of
                       None \<Rightarrow> None
                     | Some (Inl e', st2) \<Rightarrow> Some (Raise e', Finished, st2)
                     | Some (Inr u, st2) \<Rightarrow> Some (StopIteration, Finished, st2))
                  else Some (Raise e, Finished, st1)
              | Inr responses \<Rightarrow> responses_loop cl responses st1)
      | Suspended resp ms rest \<Rightarrow>
          (case ms of
             [] \<Rightarrow> responses_loop cl rest st
           | om # ms' \<Rightarrow> Some (emit resp om ms' rest st))
      | Finished \<Rightarrow> Some (StopIteration, Finished, st))"

section \<open>Iterating\<close>

text \<open>
  One pass through the body of the \<^verbatim>\<open>while True\<close> of \<^verbatim>\<open>next\<close>, lines 170 to 185.
  The inner \<open>None\<close> says that the pass ended without a result and the loop goes round
  again. Only StopIteration clears \<^verbatim>\<open>self._msg_iter\<close>.
\<close>

definition next_iteration ::
  "client \<Rightarrow> consumer \<Rightarrow> ((error + KafkaMessage) option \<times> consumer) option" where
  "next_iteration cl st =
     (let g = (case msg_iter st of None \<Rightarrow> fetch_messages | Some it \<Rightarrow> it);
          st1 = st\<lparr>msg_iter := Some g\<rparr>
      in case should_auto_commit cl st1 of
           (Inl e, st2) \<Rightarrow> Some (Some (Inl e), st2)
         | (Inr due, st2) \<Rightarrow>
             (case (if due then commit cl st2 else (Inr False, st2)) of
                (Inl e, st3) \<Rightarrow> Some (Some (Inl e), st3)
              | (Inr c, st3) \<Rightarrow>
                  (case msg_iter_next cl g st3 of
                     None \<Rightarrow> None
                   | Some (Yield m, g', st4) \<Rightarrow> Some (Some (Inr m), st4\<lparr>msg_iter := Some g'\<rparr>)
                   | Some (Raise e, g', st4) \<Rightarrow> Some (Some (Inl e), st4\<lparr>msg_iter := Some g'\<rparr>)
                   | Some (StopIteration, g', st4) \<Rightarrow>
                       (case check_consumer_timeout cl (st4\<lparr>msg_iter := None\<rparr>) of
                          (Inl e, st5) \<Rightarrow> Some (Some (Inl e), st5)
                        | (Inr u, st5) \<Rightarrow> Some (None, st5)))))"

partial_function (option) next_loop ::
  "client \<Rightarrow> consumer \<Rightarrow> ((error + KafkaMessage) \<times> consumer) option" where
  "next_loop cl st =
     (case next_iteration cl st of
        None \<Rightarrow> None
      | Some (Some r, st1) \<Rightarrow> Some (r, st1)
      | Some (None, st1) \<Rightarrow> next_loop cl st1)"

text \<open>\<^verbatim>\<open>next\<close>, lines 166 to 185.\<close>

definition consumer_next ::
  "client \<Rightarrow> consumer \<Rightarrow> ((error + KafkaMessage) \<times> consumer) option" where
  "consumer_next cl st = next_loop cl (set_consumer_timeout_start cl st)"

section \<open>Partition resolution in the words of the specification\<close>

text \<open>
  The explicit starting offsets of an input, in the order in which they are given: the third
  member of a (topic, partition, offset) tuple, and the value of a dict item whose key is a
  (topic, partition) pair. The offset given for a partition is the last one given for it.
\<close>

fun explicit_of_item :: "pyval \<times> pyval \<Rightarrow> (topic_partition \<times> pyval) list" where
  "explicit_of_item (VTuple [VStr t, VInt p], v) = [((t, p), v)]"
| "explicit_of_item item = []"

fun explicit_of_arg :: "pyval \<Rightarrow> (topic_partition \<times> pyval) list" where
  "explicit_of_arg (VTuple [VStr t, VInt p, v]) = [((t, p), v)]"
| "explicit_of_arg (VDict items) = concat (map explicit_of_item items)"
| "explicit_of_arg arg = []"

definition explicit_offset :: "pyval list \<Rightarrow> topic_partition \<Rightarrow> pyval option" where
  "explicit_offset args = map_of (rev (concat (map explicit_of_arg args)))"

text \<open>
  The group's stored commit offset for a partition, as the broker reports it: there is none
  without a consumer group, and none when the broker answers with the offset \<open>-1\<close>.
\<close>

definition stored_commit :: "client \<Rightarrow> config \<Rightarrow> topic_partition \<Rightarrow> int option" where
  "stored_commit cl cfg tp =
     (if truthy (group_id cfg) then
        (case send_offset_fetch_request cl (group_id cfg)
                [OffsetFetchRequest (fst tp) (snd tp)] of
           Inr [resp] \<Rightarrow> if ofr_offset resp = - 1 then None else Some (ofr_offset resp)
         | _ \<Rightarrow> None)
      else None)"

text \<open>What consuming an argument leaves alone.\<close>

definition kept :: "consumer \<Rightarrow> consumer \<Rightarrow> bool" where
  "kept st st' \<longleftrightarrow>
     config st' = config st \<and> topic_partitions st' = topic_partitions st \<and>
     highwater_offsets (offsets st') = highwater_offsets (offsets st) \<and>
     commit_offsets (offsets st') = commit_offsets (offsets st) \<and>
     task_done_offsets (offsets st') = task_done_offsets (offsets st)"

text \<open>
  The fetch cursor of a partition in \<open>st'\<close> is what lines 412 to 420 make of the cursors
  of \<open>st\<close>: the fetch cursor if there is one, else the commit cursor if it is not
  \<^verbatim>\<open>None\<close>, else what the reset policy resolves.
\<close>

definition filled :: "client \<Rightarrow> consumer \<Rightarrow> consumer \<Rightarrow> topic_partition \<Rightarrow> bool" where
  "filled cl st st' tp \<longleftrightarrow>
     (case map_of (fetch_offsets (offsets st)) tp of
        Some v \<Rightarrow> map_of (fetch_offsets (offsets st')) tp = Some v
      | None \<Rightarrow>
          (case map_of (commit_offsets (offsets st)) tp of
             Some (Some c) \<Rightarrow> map_of (fetch_offsets (offsets st')) tp = Some (VInt c)
           | _ \<Rightarrow>
               (\<exists>v. fst (reset_partition_offset cl None tp st) = Inr v \<and>
                    map_of (fetch_offsets (offsets st')) tp = Some (VInt v))))"

section \<open>Counting fetch rounds\<close>

text \<open>A fetch round is one call of \<^verbatim>\<open>send_fetch_request\<close>; the rounds of a run are
  counted in the record of what was sent.\<close>

fun is_fetch_call :: "net_call \<Rightarrow> bool" where
  "is_fetch_call (FetchCall reqs) = True"
| "is_fetch_call c = False"

definition fetch_rounds :: "consumer \<Rightarrow> nat" where
  "fetch_rounds st = length (filter is_fetch_call (sent st))"

text \<open>What the steps between the start of \<^verbatim>\<open>next\<close> and its timeout check leave alone:
  the deadline, the configuration and the number of fetch rounds.\<close>

definition unaffected :: "consumer \<Rightarrow> consumer \<Rightarrow> bool" where
  "unaffected st st' \<longleftrightarrow>
     consumer_timeout st' = consumer_timeout st \<and> config st' = config st \<and>
     fetch_rounds st' = fetch_rounds st"

section \<open>Example inputs\<close>

text \<open>
  A broker with one topic, \<^verbatim>\<open>orders\<close>, of two partitions. The group has committed
  offset 42 for partition 0 and nothing for partition 1; the log of every partition starts
  at offset 0 and ends at 100; commits are acknowledged; a fetch finds nothing new; the
  clock advances by one second between readings. The deserializer rejects the payload
  \<^verbatim>\<open>bad\<close>.
\<close>

definition example_config :: config where
  "example_config =
     \<lparr>group_id = Some ''g1'', auto_offset_reset = ''largest'', auto_commit_enable = False,
      auto_commit_interval_ms = 60000, consumer_timeout_ms = 0,
      fetch_message_max_bytes = 1048576, fetch_min_bytes = 1, fetch_wait_max_ms = 100,
      refresh_leader_backoff_ms = 200,
      deserializer_class =
        (\<lambda>raw. if raw = ''bad'' then Inl DeserializerError else Inr (VStr raw))\<rparr>"

definition example_client :: client where
  "example_client =
     \<lparr>load_metadata_for_topics = Inr [''orders'' \<mapsto> [0, 1]],
      send_offset_fetch_request =
        (\<lambda>g reqs. Inr (map (\<lambda>r. OffsetFetchResponse (ofq_topic r) (ofq_partition r)
                                  (if ofq_partition r = 0 then 42 else - 1) None) reqs)),
      send_offset_commit_request =
        (\<lambda>g reqs. Inr (map (\<lambda>r. OffsetCommitResponse (ocq_topic r) (ocq_partition r) None)
                         reqs)),
      send_offset_request =
        (\<lambda>reqs. Inr (map (\<lambda>r. OffsetResponse (oq_topic r) (oq_partition r) None
                                [if oq_time r = - 1 then 100 else 0]) reqs)),
      send_fetch_request = (\<lambda>reqs w b. Inr []),
      clock = (\<lambda>n. 1000 + real n)\<rparr>"

text \<open>A consumer that has been configured and has resolved nothing yet.\<close>

definition fresh_consumer :: "config \<Rightarrow> consumer" where
  "fresh_consumer c =
     \<lparr>config = c, topic_partitions = Map.empty, topics = [],
      offsets = \<lparr>fetch_offsets = [], highwater_offsets = [], commit_offsets = [],
                 task_done_offsets = []\<rparr>,
      msg_iter = None, next_commit = None, consumer_timeout = Unset, ticks = 0, sent = []\<rparr>"

text \<open>The same consumer with the given commit and task-done cursors.\<close>

definition marked_consumer ::
  "(topic_partition \<times> int option) list \<Rightarrow> (topic_partition \<times> int option) list \<Rightarrow> consumer" where
  "marked_consumer cm td =
     (fresh_consumer example_config)
       \<lparr>topics := map fst cm,
        offsets := \<lparr>fetch_offsets = [], highwater_offsets = [], commit_offsets = cm,
                    task_done_offsets = td\<rparr>\<rparr>"

text \<open>A broker that refuses the commit for partition 1 (error code 12).\<close>

definition refusing_client :: client where
  "refusing_client =
     example_client\<lparr>send_offset_commit_request :=
       (\<lambda>g reqs. Inr (map (\<lambda>r. OffsetCommitResponse (ocq_topic r) (ocq_partition r)
                                 (if ocq_partition r = 1 then Some (BrokerError 12) else None))
                        reqs))\<rparr>"

text \<open>A consumer with the given fetch cursors and nothing committed or marked done.\<close>

definition fetching_consumer :: "(topic_partition \<times> pyval) list \<Rightarrow> consumer" where
  "fetching_consumer f =
     (fresh_consumer example_config)
       \<lparr>topic_partitions := [''orders'' \<mapsto> [0, 1]],
        topics := map fst f,
        offsets := \<lparr>fetch_offsets = f,
                    highwater_offsets = map (\<lambda>(tp, v). (tp, None)) f,
                    commit_offsets = map (\<lambda>(tp, v). (tp, None)) f,
                    task_done_offsets = map (\<lambda>(tp, v). (tp, None)) f\<rparr>\<rparr>"

text \<open>A broker that answers every fetch round with the given responses.\<close>

definition answering_client :: "FetchResponse list \<Rightarrow> client" where
  "answering_client resps = example_client\<lparr>send_fetch_request := (\<lambda>reqs w b. Inr resps)\<rparr>"

text \<open>The same broker seen through a clock that reads the same value every time.\<close>

definition frozen_client :: client where
  "frozen_client = example_client\<lparr>clock := (\<lambda>n. 1000)\<rparr>"

section \<open>The offset reset policy resolves one offset\<close>

lemma get_partition_offsets_snd:
  "snd (get_partition_offsets cl t p rt n st) = transmit (OffsetCall [OffsetRequest t p rt n]) st"
  by (simp add: get_partition_offsets_def Let_def split: sum.splits list.splits)

lemma get_partition_offsets_ok:
  "send_offset_request cl [OffsetRequest t p rt n] = Inr [OffsetResponse t p None os] \<Longrightarrow>
   fst (get_partition_offsets cl t p rt n st) = Inr os"
  by (simp add: get_partition_offsets_def Let_def check_error_def)

lemma reset_known_policy_snd:
  assumes "auto_offset_reset (config st) = ''largest'' \<and> rt = - 1
         \<or> auto_offset_reset (config st) = ''smallest'' \<and> rt = - 2"
  shows "snd (reset_partition_offset cl exc (t, p) st)
           = transmit (OffsetCall [OffsetRequest t p rt 1]) st"
  using assms get_partition_offsets_snd [of cl t p rt 1 st]
  by (auto simp add: reset_partition_offset_def LATEST_def EARLIEST_def
        split: prod.splits sum.splits list.splits)

lemma reset_known_policy_fst:
  assumes "auto_offset_reset (config st) = ''largest'' \<and> rt = - 1
         \<or> auto_offset_reset (config st) = ''smallest'' \<and> rt = - 2"
    and "send_offset_request cl [OffsetRequest t p rt 1] = Inr [OffsetResponse t p None [v]]"
  shows "fst (reset_partition_offset cl exc (t, p) st) = Inr v"
  using assms(1) get_partition_offsets_ok [OF assms(2), of st]
  by (auto simp add: reset_partition_offset_def LATEST_def EARLIEST_def
        split: prod.splits sum.splits list.splits)

lemma reset_unknown_policy:
  "auto_offset_reset (config st) \<noteq> ''largest'' \<Longrightarrow> auto_offset_reset (config st) \<noteq> ''smallest'' \<Longrightarrow>
   reset_partition_offset cl exc (t, p) st
        = (Inl (case exc of None \<Rightarrow> OffsetOutOfRangeError | Some e \<Rightarrow> e), st)"
  by (simp add: reset_partition_offset_def split: option.splits)

text \<open>
  C8, as the code has it. The policy names the code knows are \<^verbatim>\<open>largest\<close> and
  \<^verbatim>\<open>smallest\<close>. For every partition, with \<^verbatim>\<open>largest\<close> the policy sends exactly one
  time-based lookup for one offset with the latest-time sentinel \<open>-1\<close>, with
  \<^verbatim>\<open>smallest\<close> one with the earliest-time sentinel \<open>-2\<close>, and the single offset of
  the answer is the result. With any other name nothing is sent and the call fails: with
  the exception being handled, or with an out-of-range error outside a handler.
\<close>

theorem reset_partition_offset_policy:
  "(auto_offset_reset (config st) = ''largest'' \<longrightarrow>
      sent (snd (reset_partition_offset cl exc (t, p) st))
        = sent st @ [OffsetCall [OffsetRequest t p (- 1) 1]] \<and>
      (send_offset_request cl [OffsetRequest t p (- 1) 1] = Inr [OffsetResponse t p None [v]]
        \<longrightarrow> fst (reset_partition_offset cl exc (t, p) st) = Inr v)) \<and>
   (auto_offset_reset (config st) = ''smallest'' \<longrightarrow>
      sent (snd (reset_partition_offset cl exc (t, p) st))
        = sent st @ [OffsetCall [OffsetRequest t p (- 2) 1]] \<and>
      (send_offset_request cl [OffsetRequest t p (- 2) 1] = Inr [OffsetResponse t p None [v]]
        \<longrightarrow> fst (reset_partition_offset cl exc (t, p) st) = Inr v)) \<and>
   (auto_offset_reset (config st) \<noteq> ''largest'' \<and> auto_offset_reset (config st) \<noteq> ''smallest''
      \<longrightarrow> reset_partition_offset cl exc (t, p) st
            = (Inl (case exc of None \<Rightarrow> OffsetOutOfRangeError | Some e \<Rightarrow> e), st))"
  using reset_known_policy_snd [of st "- 1" cl exc t p]
    reset_known_policy_snd [of st "- 2" cl exc t p]
    reset_known_policy_fst [of st "- 1" cl t p v exc]
    reset_known_policy_fst [of st "- 2" cl t p v exc]
    reset_unknown_policy [of st cl exc t p]
  by (simp add: transmit_def)

theorem reset_partition_offset_policy_witness:
  "fst (reset_partition_offset example_client None (''orders'', 0)
          (fresh_consumer example_config)) = Inr 100
 \<and> fst (reset_partition_offset example_client None (''orders'', 0)
          (fresh_consumer (example_config\<lparr>auto_offset_reset := ''smallest''\<rparr>))) = Inr 0
 \<and> fst (reset_partition_offset example_client None (''orders'', 0)
          (fresh_consumer (example_config\<lparr>auto_offset_reset := ''newest''\<rparr>)))
      = Inl OffsetOutOfRangeError"
  using reset_partition_offset_policy
      [of "fresh_consumer example_config" example_client None "''orders''" 0 100]
    reset_partition_offset_policy
      [of "fresh_consumer (example_config\<lparr>auto_offset_reset := ''smallest''\<rparr>)"
          example_client None "''orders''" 0 0]
    reset_partition_offset_policy
      [of "fresh_consumer (example_config\<lparr>auto_offset_reset := ''newest''\<rparr>)"
          example_client None "''orders''" 0 0]
  by (simp add: fresh_consumer_def example_config_def example_client_def)

text \<open>
  C8 as the claim words it fails: configured with the names \<^verbatim>\<open>latest\<close> or
  \<^verbatim>\<open>earliest\<close>, the policy resolves no offset and sends no lookup.
\<close>

theorem reset_partition_offset_latest_counterexample:
  "reset_partition_offset example_client None (''orders'', 0)
     (fresh_consumer (example_config\<lparr>auto_offset_reset := ''latest''\<rparr>))
   = (Inl OffsetOutOfRangeError,
      fresh_consumer (example_config\<lparr>auto_offset_reset := ''latest''\<rparr>))
  \<and> reset_partition_offset example_client None (''orders'', 0)
     (fresh_consumer (example_config\<lparr>auto_offset_reset := ''earliest''\<rparr>))
   = (Inl OffsetOutOfRangeError,
      fresh_consumer (example_config\<lparr>auto_offset_reset := ''earliest''\<rparr>))"
  by (simp add: reset_partition_offset_def fresh_consumer_def example_config_def)

section \<open>Marking a message done\<close>

text \<open>Where the partition has a commit cursor that is a number, \<^verbatim>\<open>task_done\<close> returns
  and stores the offset of the message, whatever the offset is.\<close>

lemma task_done_with_commit_cursor:
  assumes "map_of (task_done_offsets (offsets st)) (km_topic m, km_partition m) = Some prev"
    and "map_of (commit_offsets (offsets st)) (km_topic m, km_partition m) = Some (Some c)"
  shows "fst (task_done m st) = Inr ()"
    and "map_of (task_done_offsets (offsets (snd (task_done m st))))
           (km_topic m, km_partition m) = Some (Some (km_offset m))"
  using assms by (simp_all add: task_done_def Let_def update_Some_unfold)

text \<open>
  C4 at a state the code reaches by itself: partitions resolved without a consumer group
  have the commit cursor \<^verbatim>\<open>None\<close>, and marking the message at offset 100 of partition
  0 done raises a TypeError (\<^verbatim>\<open>None - 1\<close>, line 216) and stores nothing.
\<close>

theorem task_done_commit_None_TypeError:
  "case set_topic_partitions example_client [VStr ''orders'']
          (fresh_consumer (example_config\<lparr>group_id := None\<rparr>)) of
     Inl e \<Rightarrow> False
   | Inr st \<Rightarrow>
       map_of (commit_offsets (offsets st)) (''orders'', 0) = Some None \<and>
       task_done (KafkaMessage ''orders'' 0 100 None (VStr ''m1'')) st = (Inl TypeError, st)"
  by (simp add: set_topic_partitions_def example_client_def fresh_consumer_def
       example_config_def transmit_def get_partition_ids_for_topic_def
       consume_topic_partition_def truthy_def reset_partition_offset_def
       get_partition_offsets_def LATEST_def check_error_def store_fetch_def
       reset_highwater_offsets_def reset_task_done_offsets_def task_done_def Let_def)

section \<open>Partition resolution: inputs that are passed over\<close>

text \<open>A pair of a string and an int is refused as unknown exactly when the metadata has
  no such topic or no such partition of it; an argument that is no string, tuple or dict is
  refused with a configuration error.\<close>

lemma consume_topic_partition_unknown:
  "consume_topic_partition (VStr t) (VInt p) st = Inl UnknownTopicOrPartitionError \<longleftrightarrow>
     (case topic_partitions st t of None \<Rightarrow> True | Some ids \<Rightarrow> p \<notin> set ids)"
  by (simp add: consume_topic_partition_def get_partition_ids_for_topic_def
        split: option.splits)

lemma consume_args_other_type:
  "consume_args (VNone # args) st = Inl KafkaConfigurationError"
  "consume_args (VInt i # args) st = Inl KafkaConfigurationError"
  "consume_args (VList xs # args) st = Inl KafkaConfigurationError"
  by simp_all

text \<open>
  C9 at the input \<^verbatim>\<open>{5: 0}\<close>, a dict whose key is neither a topic name nor a
  (topic, partition) pair: the call returns normally and has assigned nothing.
\<close>

theorem set_topic_partitions_dict_key_ignored:
  "case set_topic_partitions example_client [VDict [(VInt 5, VInt 0)]]
          (fresh_consumer example_config) of
     Inl e \<Rightarrow> False
   | Inr st \<Rightarrow> topics st = [] \<and> fetch_offsets (offsets st) = []"
  by (simp add: set_topic_partitions_def example_client_def fresh_consumer_def
       example_config_def transmit_def truthy_def get_commit_offsets_def
       reset_highwater_offsets_def reset_task_done_offsets_def Let_def)

section \<open>Committing: candidates, acknowledgments, partial failure\<close>


lemma commit_candidates_acc:
  assumes "\<forall>(tp, td) \<in> set items. td \<noteq> None \<longrightarrow> map_of cm tp \<noteq> None"
  shows "commit_candidates cm items acc = Inr (acc @ spec_commit_candidates cm items)"
  using assms
proof (induction items arbitrary: acc)
  case Nil
  then show ?case by (simp add: spec_commit_candidates_def)
next
  case (Cons item items)
  obtain tp td where item: "item = (tp, td)" by (cases item)
  from Cons.prems have rest: "\<forall>(tp, td) \<in> set items. td \<noteq> None \<longrightarrow> map_of cm tp \<noteq> None"
    by simp
  show ?case
  proof (cases td)
    case None
    with item Cons.IH [OF rest] show ?thesis by (simp add: spec_commit_candidates_def)
  next
    case (Some d)
    with item Cons.prems obtain c where c: "map_of cm tp = Some c" by auto
    with item Some Cons.IH [OF rest] show ?thesis
      by (simp add: spec_commit_candidates_def Let_def)
  qed
qed

lemma spec_commit_candidates_all_None:
  "\<forall>(tp, td) \<in> set items. td = None \<Longrightarrow> spec_commit_candidates cm items = []"
  by (induction items) (auto simp add: spec_commit_candidates_def)

lemma commit_acks_sent: "sent (snd (commit_acks rs st)) = sent st"
  by (induction rs arbitrary: st) (auto simp add: Let_def split: sum.splits option.splits)

lemma commit_acks_task_done:
  "task_done_offsets (offsets (snd (commit_acks rs st))) = task_done_offsets (offsets st)"
  by (induction rs arbitrary: st) (auto simp add: Let_def split: sum.splits option.splits)

lemma commit_acks_next_commit: "next_commit (snd (commit_acks rs st)) = next_commit st"
  by (induction rs arbitrary: st) (auto simp add: Let_def split: sum.splits option.splits)

lemma commit_acks_config: "config (snd (commit_acks rs st)) = config st"
  by (induction rs arbitrary: st) (auto simp add: Let_def split: sum.splits option.splits)


lemma commit_acks_append:
  "commit_acks (xs @ ys) st =
     (case commit_acks xs st of (Inl e, s) \<Rightarrow> (Inl e, s) | (Inr u, s) \<Rightarrow> commit_acks ys s)"
  by (induction xs arbitrary: st) (auto simp add: Let_def split: sum.splits option.splits)

lemma commit_acks_all_ok:
  assumes "\<forall>r \<in> set rs. ocr_error r = None \<and>
             (\<exists>d. map_of (task_done_offsets (offsets st)) (ocr_topic r, ocr_partition r)
                    = Some (Some d))"
  shows "fst (commit_acks rs st) = Inr () \<and>
         (\<forall>tp. map_of (commit_offsets (offsets (snd (commit_acks rs st)))) tp =
            (if tp \<in> (\<lambda>r. (ocr_topic r, ocr_partition r)) ` set rs
             then map_option (map_option (\<lambda>d. d + 1)) (map_of (task_done_offsets (offsets st)) tp)
             else map_of (commit_offsets (offsets st)) tp))"
  using assms
proof (induction rs arbitrary: st)
  case Nil
  then show ?case by simp
next
  case (Cons r rs)
  let ?tp = "(ocr_topic r, ocr_partition r)"
  from Cons.prems obtain d where err: "ocr_error r = None"
    and d: "map_of (task_done_offsets (offsets st)) ?tp = Some (Some d)" by auto
  let ?st1 = "st\<lparr>offsets := (offsets st)\<lparr>commit_offsets :=
                 AList.update ?tp (Some (d + 1)) (commit_offsets (offsets st))\<rparr>\<rparr>"
  have step: "commit_acks (r # rs) st = commit_acks rs ?st1"
    using err d by (simp add: check_error_def)
  have td1: "task_done_offsets (offsets ?st1) = task_done_offsets (offsets st)" by simp
  have "\<forall>r \<in> set rs. ocr_error r = None \<and>
             (\<exists>d. map_of (task_done_offsets (offsets ?st1)) (ocr_topic r, ocr_partition r)
                    = Some (Some d))"
    using Cons.prems by simp
  from Cons.IH [OF this] have IH1: "fst (commit_acks rs ?st1) = Inr ()"
    and IH2: "\<And>tp. map_of (commit_offsets (offsets (snd (commit_acks rs ?st1)))) tp =
            (if tp \<in> (\<lambda>r. (ocr_topic r, ocr_partition r)) ` set rs
             then map_option (map_option (\<lambda>d. d + 1)) (map_of (task_done_offsets (offsets st)) tp)
             else map_of (commit_offsets (offsets ?st1)) tp)"
    by (simp_all only: td1)
  show ?case
  proof (intro conjI allI)
    show "fst (commit_acks (r # rs) st) = Inr ()" using IH1 by (simp only: step)
  next
    fix tp
    show "map_of (commit_offsets (offsets (snd (commit_acks (r # rs) st)))) tp =
            (if tp \<in> (\<lambda>r. (ocr_topic r, ocr_partition r)) ` set (r # rs)
             then map_option (map_option (\<lambda>d. d + 1)) (map_of (task_done_offsets (offsets st)) tp)
             else map_of (commit_offsets (offsets st)) tp)"
      unfolding step using IH2 [of tp] d by (auto simp add: update_conv')
  qed
qed


lemma set_next_auto_commit_time_frame:
  "sent (set_next_auto_commit_time cl st) = sent st"
  "offsets (set_next_auto_commit_time cl st) = offsets st"
  by (simp_all add: set_next_auto_commit_time_def time_time_def)

lemma commit_sends_candidates:
  assumes "truthy (group_id (config st))"
    and "commit_candidates (commit_offsets (offsets st)) (task_done_offsets (offsets st)) []
           = Inr commits"
    and "commits \<noteq> []"
  shows "sent (snd (commit cl st)) = sent st @ [OffsetCommitCall (group_id (config st)) commits]"
proof (cases "send_offset_commit_request cl (group_id (config st)) commits")
  case (Inl e)
  with assms show ?thesis by (simp add: commit_def transmit_def)
next
  case (Inr resps)
  let ?st1 = "transmit (OffsetCommitCall (group_id (config st)) commits) st"
  obtain r s2 where acks: "commit_acks resps ?st1 = (r, s2)" by (cases "commit_acks resps ?st1")
  have "sent s2 = sent ?st1" using commit_acks_sent [of resps ?st1] acks by simp
  with assms Inr acks show ?thesis
    by (cases r) (simp_all add: commit_def transmit_def set_next_auto_commit_time_frame)
qed

text \<open>
  C3. With a group id configured and a commit entry for every partition marked done, the
  loop of \<^verbatim>\<open>commit\<close> builds exactly the candidate list of the specification: one
  request with offset \<open>task_done + 1\<close> for every partition whose task-done cursor is
  non-null and whose candidate differs from the recorded commit cursor. A non-empty list is
  what is sent, in one request. When the list is empty, and so in particular when every
  task-done cursor is \<^verbatim>\<open>None\<close>, \<^verbatim>\<open>commit\<close> returns false and leaves the whole state
  as it was, the record of what was sent included.
\<close>

theorem commit_candidates_empty_no_request:
  assumes "truthy (group_id (config st))"
    and "\<forall>(tp, td) \<in> set (task_done_offsets (offsets st)).
           td \<noteq> None \<longrightarrow> map_of (commit_offsets (offsets st)) tp \<noteq> None"
  shows "commit_candidates (commit_offsets (offsets st)) (task_done_offsets (offsets st)) []
           = Inr (spec_commit_candidates (commit_offsets (offsets st))
                    (task_done_offsets (offsets st)))
       \<and> (spec_commit_candidates (commit_offsets (offsets st)) (task_done_offsets (offsets st))
            \<noteq> [] \<longrightarrow>
          sent (snd (commit cl st))
            = sent st @ [OffsetCommitCall (group_id (config st))
                (spec_commit_candidates (commit_offsets (offsets st))
                   (task_done_offsets (offsets st)))])
       \<and> (spec_commit_candidates (commit_offsets (offsets st)) (task_done_offsets (offsets st))
            = [] \<longrightarrow> commit cl st = (Inr False, st))
       \<and> ((\<forall>(tp, td) \<in> set (task_done_offsets (offsets st)). td = None) \<longrightarrow>
            commit cl st = (Inr False, st))"
proof -
  let ?spec = "spec_commit_candidates (commit_offsets (offsets st))
                 (task_done_offsets (offsets st))"
  have cands: "commit_candidates (commit_offsets (offsets st))
                 (task_done_offsets (offsets st)) [] = Inr ?spec"
    using commit_candidates_acc [OF assms(2), of "[]"] by simp
  have sends: "?spec \<noteq> [] \<longrightarrow>
      sent (snd (commit cl st)) = sent st @ [OffsetCommitCall (group_id (config st)) ?spec]"
    using commit_sends_candidates [OF assms(1) cands] by blast
  have empty: "?spec = [] \<longrightarrow> commit cl st = (Inr False, st)"
    using assms(1) cands by (simp add: commit_def)
  have none: "(\<forall>(tp, td) \<in> set (task_done_offsets (offsets st)). td = None) \<longrightarrow>
            commit cl st = (Inr False, st)"
    using empty spec_commit_candidates_all_None by blast
  from cands sends empty none show ?thesis by blast
qed

theorem commit_candidates_empty_no_request_witness:
  "commit example_client
      (marked_consumer [((''orders'', 0), Some 51), ((''orders'', 1), None)]
                       [((''orders'', 0), Some 50), ((''orders'', 1), None)])
     = (Inr False, marked_consumer [((''orders'', 0), Some 51), ((''orders'', 1), None)]
                       [((''orders'', 0), Some 50), ((''orders'', 1), None)])
   \<and> commit example_client
      (marked_consumer [((''orders'', 0), Some 42), ((''orders'', 1), None)]
                       [((''orders'', 0), None), ((''orders'', 1), None)])
     = (Inr False, marked_consumer [((''orders'', 0), Some 42), ((''orders'', 1), None)]
                       [((''orders'', 0), None), ((''orders'', 1), None)])
   \<and> sent (snd (commit example_client
      (marked_consumer [((''orders'', 0), Some 42), ((''orders'', 1), None)]
                       [((''orders'', 0), Some 50), ((''orders'', 1), None)])))
     = [OffsetCommitCall (Some ''g1'') [OffsetCommitRequest ''orders'' 0 51 []]]"
  using commit_candidates_empty_no_request
      [of "marked_consumer [((''orders'', 0), Some 51), ((''orders'', 1), None)]
                       [((''orders'', 0), Some 50), ((''orders'', 1), None)]" example_client]
    commit_candidates_empty_no_request
      [of "marked_consumer [((''orders'', 0), Some 42), ((''orders'', 1), None)]
                       [((''orders'', 0), None), ((''orders'', 1), None)]" example_client]
    commit_candidates_empty_no_request
      [of "marked_consumer [((''orders'', 0), Some 42), ((''orders'', 1), None)]
                       [((''orders'', 0), Some 50), ((''orders'', 1), None)]" example_client]
  by (simp add: marked_consumer_def fresh_consumer_def example_config_def truthy_def
        spec_commit_candidates_def)


lemma commit_round_trip:
  assumes "truthy (group_id (config st))"
    and "commit_candidates (commit_offsets (offsets st)) (task_done_offsets (offsets st)) []
           = Inr commits"
    and "commits \<noteq> []"
    and "send_offset_commit_request cl (group_id (config st)) commits = Inr resps"
  shows "commit cl st =
     (case commit_acks resps (transmit (OffsetCommitCall (group_id (config st)) commits) st) of
        (Inl e, st2) \<Rightarrow> (Inl e, st2)
      | (Inr u, st2) \<Rightarrow>
          (Inr True, if auto_commit_enable (config st2)
                     then set_next_auto_commit_time cl st2 else st2))"
  using assms by (simp add: commit_def)

text \<open>
  C2. When the batch is not empty, the transport answers, and every acknowledgment is free
  of error and names a partition with a task-done cursor, \<^verbatim>\<open>commit\<close> returns true, and
  for every acknowledged partition the commit cursor is the task-done cursor found in the
  store plus one. The cursor written is computed from the store when the acknowledgment is
  read (line 280), not copied from the request, so it is also right for an acknowledged
  partition that had no candidate in the request.
\<close>

theorem commit_acknowledged_cursor:
  assumes "truthy (group_id (config st))"
    and "commit_candidates (commit_offsets (offsets st)) (task_done_offsets (offsets st)) []
           = Inr commits"
    and "commits \<noteq> []"
    and "send_offset_commit_request cl (group_id (config st)) commits = Inr resps"
    and "\<forall>r \<in> set resps. ocr_error r = None \<and>
           (\<exists>d. map_of (task_done_offsets (offsets st)) (ocr_topic r, ocr_partition r)
                  = Some (Some d))"
  shows "fst (commit cl st) = Inr True
       \<and> task_done_offsets (offsets (snd (commit cl st))) = task_done_offsets (offsets st)
       \<and> (\<forall>r \<in> set resps. \<exists>d.
            map_of (task_done_offsets (offsets (snd (commit cl st))))
              (ocr_topic r, ocr_partition r) = Some (Some d) \<and>
            map_of (commit_offsets (offsets (snd (commit cl st))))
              (ocr_topic r, ocr_partition r) = Some (Some (d + 1)))"
proof -
  let ?st1 = "transmit (OffsetCommitCall (group_id (config st)) commits) st"
  have td1: "task_done_offsets (offsets ?st1) = task_done_offsets (offsets st)"
    and cm1: "commit_offsets (offsets ?st1) = commit_offsets (offsets st)"
    by (simp_all add: transmit_def)
  obtain r s2 where acks: "commit_acks resps ?st1 = (r, s2)" by (cases "commit_acks resps ?st1")
  have ok: "\<forall>r \<in> set resps. ocr_error r = None \<and>
           (\<exists>d. map_of (task_done_offsets (offsets ?st1)) (ocr_topic r, ocr_partition r)
                  = Some (Some d))"
    using assms(5) by (simp only: td1)
  have all: "fst (commit_acks resps ?st1) = Inr () \<and>
         (\<forall>tp. map_of (commit_offsets (offsets (snd (commit_acks resps ?st1)))) tp =
            (if tp \<in> (\<lambda>r. (ocr_topic r, ocr_partition r)) ` set resps
             then map_option (map_option (\<lambda>d. d + 1)) (map_of (task_done_offsets (offsets st)) tp)
             else map_of (commit_offsets (offsets st)) tp))"
    using commit_acks_all_ok [OF ok] unfolding td1 cm1 .
  from all acks have r: "r = Inr ()" by simp
  from all have cm: "map_of (commit_offsets (offsets s2)) tp =
            (if tp \<in> (\<lambda>r. (ocr_topic r, ocr_partition r)) ` set resps
             then map_option (map_option (\<lambda>d. d + 1)) (map_of (task_done_offsets (offsets st)) tp)
             else map_of (commit_offsets (offsets st)) tp)" for tp
    unfolding acks snd_conv by blast
  have td2: "task_done_offsets (offsets s2) = task_done_offsets (offsets st)"
    using commit_acks_task_done [of resps ?st1] acks by (simp add: td1)
  have res: "commit cl st =
      (Inr True, if auto_commit_enable (config s2) then set_next_auto_commit_time cl s2 else s2)"
    using commit_round_trip [OF assms(1-4)] acks r by simp
  have offs: "offsets (snd (commit cl st)) = offsets s2"
    by (simp add: res set_next_auto_commit_time_frame)
  show ?thesis
  proof (intro conjI ballI)
    show "fst (commit cl st) = Inr True" by (simp add: res)
    show "task_done_offsets (offsets (snd (commit cl st))) = task_done_offsets (offsets st)"
      by (simp add: offs td2)
  next
    fix a assume a: "a \<in> set resps"
    with assms(5) obtain d where
      d: "map_of (task_done_offsets (offsets st)) (ocr_topic a, ocr_partition a) = Some (Some d)"
      by blast
    from a have "(ocr_topic a, ocr_partition a) \<in> (\<lambda>r. (ocr_topic r, ocr_partition r)) ` set resps"
      by (rule imageI)
    with cm [of "(ocr_topic a, ocr_partition a)"] d
    have "map_of (commit_offsets (offsets s2)) (ocr_topic a, ocr_partition a) = Some (Some (d + 1))"
      by simp
    with d show "\<exists>d. map_of (task_done_offsets (offsets (snd (commit cl st))))
              (ocr_topic a, ocr_partition a) = Some (Some d) \<and>
            map_of (commit_offsets (offsets (snd (commit cl st))))
              (ocr_topic a, ocr_partition a) = Some (Some (d + 1))"
      by (simp add: offs td2)
  qed
qed

theorem commit_acknowledged_cursor_witness:
  "fst (commit example_client
      (marked_consumer [((''orders'', 0), Some 42), ((''orders'', 1), None)]
                       [((''orders'', 0), Some 50), ((''orders'', 1), None)])) = Inr True
   \<and> map_of (commit_offsets (offsets (snd (commit example_client
      (marked_consumer [((''orders'', 0), Some 42), ((''orders'', 1), None)]
                       [((''orders'', 0), Some 50), ((''orders'', 1), None)])))))
        (''orders'', 0) = Some (Some 51)"
proof -
  let ?st = "marked_consumer [((''orders'', 0), Some 42), ((''orders'', 1), None)]
                       [((''orders'', 0), Some 50), ((''orders'', 1), None)]"
  let ?commits = "[OffsetCommitRequest ''orders'' 0 51 []]"
  let ?resps = "[OffsetCommitResponse ''orders'' 0 None]"
  have td: "task_done_offsets (offsets ?st) = [((''orders'', 0), Some 50), ((''orders'', 1), None)]"
    and cm: "commit_offsets (offsets ?st) = [((''orders'', 0), Some 42), ((''orders'', 1), None)]"
    and grp: "group_id (config ?st) = Some ''g1''"
    by (simp_all add: marked_consumer_def fresh_consumer_def example_config_def)
  have h1: "truthy (group_id (config ?st))" by (simp add: grp truthy_def)
  have h2: "commit_candidates (commit_offsets (offsets ?st)) (task_done_offsets (offsets ?st)) []
              = Inr ?commits"
    by (simp add: td cm)
  have h3: "?commits \<noteq> []" by simp
  have h4: "send_offset_commit_request example_client (group_id (config ?st)) ?commits
              = Inr ?resps"
    by (simp add: example_client_def)
  have h5: "\<forall>r \<in> set ?resps. ocr_error r = None \<and>
           (\<exists>d. map_of (task_done_offsets (offsets ?st)) (ocr_topic r, ocr_partition r)
                  = Some (Some d))"
    by (simp add: td)
  from commit_acknowledged_cursor [OF h1 h2 h3 h4 h5] show ?thesis
    by (auto simp add: td)
qed

text \<open>
  C10. The acknowledgments are processed in order. When the first one that carries an error
  comes after some that do not, \<^verbatim>\<open>commit\<close> raises that error, the commit cursors of
  the partitions acknowledged before it stay updated to \<open>task_done + 1\<close>, every other
  commit cursor is as before, and the auto-commit deadline is not touched.
\<close>

theorem commit_not_atomic:
  assumes "truthy (group_id (config st))"
    and "commit_candidates (commit_offsets (offsets st)) (task_done_offsets (offsets st)) []
           = Inr commits"
    and "commits \<noteq> []"
    and "send_offset_commit_request cl (group_id (config st)) commits
           = Inr (earlier @ failed # later)"
    and "\<forall>r \<in> set earlier. ocr_error r = None \<and>
           (\<exists>d. map_of (task_done_offsets (offsets st)) (ocr_topic r, ocr_partition r)
                  = Some (Some d))"
    and "ocr_error failed = Some e"
  shows "fst (commit cl st) = Inl e
       \<and> (\<forall>r \<in> set earlier. \<exists>d.
            map_of (task_done_offsets (offsets st)) (ocr_topic r, ocr_partition r)
              = Some (Some d) \<and>
            map_of (commit_offsets (offsets (snd (commit cl st))))
              (ocr_topic r, ocr_partition r) = Some (Some (d + 1)))
       \<and> (\<forall>tp. tp \<notin> (\<lambda>r. (ocr_topic r, ocr_partition r)) ` set earlier \<longrightarrow>
            map_of (commit_offsets (offsets (snd (commit cl st)))) tp
              = map_of (commit_offsets (offsets st)) tp)
       \<and> next_commit (snd (commit cl st)) = next_commit st"
proof -
  let ?st1 = "transmit (OffsetCommitCall (group_id (config st)) commits) st"
  have td1: "task_done_offsets (offsets ?st1) = task_done_offsets (offsets st)"
    and cm1: "commit_offsets (offsets ?st1) = commit_offsets (offsets st)"
    and nc1: "next_commit ?st1 = next_commit st"
    by (simp_all add: transmit_def)
  obtain r s2 where acks: "commit_acks earlier ?st1 = (r, s2)"
    by (cases "commit_acks earlier ?st1")
  have ok: "\<forall>r \<in> set earlier. ocr_error r = None \<and>
           (\<exists>d. map_of (task_done_offsets (offsets ?st1)) (ocr_topic r, ocr_partition r)
                  = Some (Some d))"
    using assms(5) by (simp only: td1)
  have all: "fst (commit_acks earlier ?st1) = Inr () \<and>
         (\<forall>tp. map_of (commit_offsets (offsets (snd (commit_acks earlier ?st1)))) tp =
            (if tp \<in> (\<lambda>r. (ocr_topic r, ocr_partition r)) ` set earlier
             then map_option (map_option (\<lambda>d. d + 1)) (map_of (task_done_offsets (offsets st)) tp)
             else map_of (commit_offsets (offsets st)) tp))"
    using commit_acks_all_ok [OF ok] unfolding td1 cm1 .
  from all acks have r: "r = Inr ()" by simp
  from all have cm: "map_of (commit_offsets (offsets s2)) tp =
            (if tp \<in> (\<lambda>r. (ocr_topic r, ocr_partition r)) ` set earlier
             then map_option (map_option (\<lambda>d. d + 1)) (map_of (task_done_offsets (offsets st)) tp)
             else map_of (commit_offsets (offsets st)) tp)" for tp
    unfolding acks snd_conv by blast
  have nc2: "next_commit s2 = next_commit st"
    using commit_acks_next_commit [of earlier ?st1] acks by (simp add: nc1)
  have "commit_acks (earlier @ failed # later) ?st1 = (Inl e, s2)"
    using acks r assms(6) by (simp add: commit_acks_append check_error_def)
  with commit_round_trip [OF assms(1-4)] have res: "commit cl st = (Inl e, s2)" by simp
  show ?thesis
  proof (intro conjI ballI allI impI)
    show "fst (commit cl st) = Inl e" by (simp add: res)
    show "next_commit (snd (commit cl st)) = next_commit st" by (simp add: res nc2)
  next
    fix tp assume "tp \<notin> (\<lambda>r. (ocr_topic r, ocr_partition r)) ` set earlier"
    with cm [of tp] show "map_of (commit_offsets (offsets (snd (commit cl st)))) tp
              = map_of (commit_offsets (offsets st)) tp"
      by (simp add: res)
  next
    fix a assume a: "a \<in> set earlier"
    with assms(5) obtain d where
      d: "map_of (task_done_offsets (offsets st)) (ocr_topic a, ocr_partition a) = Some (Some d)"
      by blast
    from a have "(ocr_topic a, ocr_partition a) \<in> (\<lambda>r. (ocr_topic r, ocr_partition r)) ` set earlier"
      by (rule imageI)
    with cm [of "(ocr_topic a, ocr_partition a)"] d
    have "map_of (commit_offsets (offsets s2)) (ocr_topic a, ocr_partition a) = Some (Some (d + 1))"
      by simp
    with d show "\<exists>d. map_of (task_done_offsets (offsets st)) (ocr_topic a, ocr_partition a)
              = Some (Some d) \<and>
            map_of (commit_offsets (offsets (snd (commit cl st))))
              (ocr_topic a, ocr_partition a) = Some (Some (d + 1))"
      by (simp add: res)
  qed
qed

theorem commit_not_atomic_witness:
  "fst (commit refusing_client
      (marked_consumer [((''orders'', 0), Some 42), ((''orders'', 1), None)]
                       [((''orders'', 0), Some 50), ((''orders'', 1), Some 7)]))
     = Inl (BrokerError 12)
   \<and> map_of (commit_offsets (offsets (snd (commit refusing_client
      (marked_consumer [((''orders'', 0), Some 42), ((''orders'', 1), None)]
                       [((''orders'', 0), Some 50), ((''orders'', 1), Some 7)])))))
        (''orders'', 0) = Some (Some 51)
   \<and> map_of (commit_offsets (offsets (snd (commit refusing_client
      (marked_consumer [((''orders'', 0), Some 42), ((''orders'', 1), None)]
                       [((''orders'', 0), Some 50), ((''orders'', 1), Some 7)])))))
        (''orders'', 1) = Some None"
proof -
  let ?st = "marked_consumer [((''orders'', 0), Some 42), ((''orders'', 1), None)]
                       [((''orders'', 0), Some 50), ((''orders'', 1), Some 7)]"
  let ?commits = "[OffsetCommitRequest ''orders'' 0 51 [], OffsetCommitRequest ''orders'' 1 8 []]"
  let ?failed = "OffsetCommitResponse ''orders'' 1 (Some (BrokerError 12))"
  have td: "task_done_offsets (offsets ?st) = [((''orders'', 0), Some 50), ((''orders'', 1), Some 7)]"
    and cm: "commit_offsets (offsets ?st) = [((''orders'', 0), Some 42), ((''orders'', 1), None)]"
    and grp: "group_id (config ?st) = Some ''g1''"
    by (simp_all add: marked_consumer_def fresh_consumer_def example_config_def)
  have h1: "truthy (group_id (config ?st))" by (simp add: grp truthy_def)
  have h2: "commit_candidates (commit_offsets (offsets ?st)) (task_done_offsets (offsets ?st)) []
              = Inr ?commits"
    by (simp add: td cm)
  have h3: "?commits \<noteq> []" by simp
  have h4: "send_offset_commit_request refusing_client (group_id (config ?st)) ?commits
              = Inr ([OffsetCommitResponse ''orders'' 0 None] @ ?failed # [])"
    by (simp add: refusing_client_def example_client_def)
  have h5: "\<forall>r \<in> set [OffsetCommitResponse ''orders'' 0 None]. ocr_error r = None \<and>
           (\<exists>d. map_of (task_done_offsets (offsets ?st)) (ocr_topic r, ocr_partition r)
                  = Some (Some d))"
    by (simp add: td)
  have h6: "ocr_error ?failed = Some (BrokerError 12)" by simp
  from commit_not_atomic [OF h1 h2 h3 h4 h5 h6] show ?thesis
    by (auto simp add: td cm)
qed

section \<open>Fetching: out-of-range responses and failing deserializers\<close>

lemma store_fetch_lookup:
  "map_of (fetch_offsets (offsets (store_fetch tp v st))) tp' =
     (if tp' = tp then Some v else map_of (fetch_offsets (offsets st)) tp')"
  by (simp add: store_fetch_def update_conv')

lemma store_fetch_frame:
  "highwater_offsets (offsets (store_fetch tp v st)) = highwater_offsets (offsets st)"
  "commit_offsets (offsets (store_fetch tp v st)) = commit_offsets (offsets st)"
  "task_done_offsets (offsets (store_fetch tp v st)) = task_done_offsets (offsets st)"
  "config (store_fetch tp v st) = config st"
  "sent (store_fetch tp v st) = sent st"
  "ticks (store_fetch tp v st) = ticks st"
  "consumer_timeout (store_fetch tp v st) = consumer_timeout st"
  by (simp_all add: store_fetch_def)

lemma reset_partition_offset_frame:
  "\<exists>reqs. snd (reset_partition_offset cl exc tp st) = st\<lparr>sent := sent st @ map OffsetCall reqs\<rparr>"
proof -
  obtain t p where tp: "tp = (t, p)" by (cases tp)
  consider (largest) "auto_offset_reset (config st) = ''largest''"
    | (smallest) "auto_offset_reset (config st) = ''smallest''"
    | (other) "auto_offset_reset (config st) \<noteq> ''largest''"
              "auto_offset_reset (config st) \<noteq> ''smallest''"
    by blast
  then show ?thesis
  proof cases
    case largest
    then have "snd (reset_partition_offset cl exc tp st)
                 = st\<lparr>sent := sent st @ map OffsetCall [[OffsetRequest t p (- 1) 1]]\<rparr>"
      using reset_known_policy_snd [of st "- 1" cl exc t p] by (simp add: tp transmit_def)
    then show ?thesis by (rule exI)
  next
    case smallest
    then have "snd (reset_partition_offset cl exc tp st)
                 = st\<lparr>sent := sent st @ map OffsetCall [[OffsetRequest t p (- 2) 1]]\<rparr>"
      using reset_known_policy_snd [of st "- 2" cl exc t p] by (simp add: tp transmit_def)
    then show ?thesis by (rule exI)
  next
    case other
    then have "snd (reset_partition_offset cl exc tp st) = st\<lparr>sent := sent st @ map OffsetCall []\<rparr>"
      using reset_unknown_policy [of st cl exc t p] by (simp add: tp)
    then show ?thesis by (rule exI)
  qed
qed

lemma reset_partition_offset_offsets:
  "offsets (snd (reset_partition_offset cl exc tp st)) = offsets st"
  using reset_partition_offset_frame [of cl exc tp st] by auto

text \<open>
  C5. When the response for a partition carries the out-of-range error, the partition has a
  fetch cursor and the reset policy resolves the offset \<open>v\<close>, the response yields no
  record: the loop goes on with the responses after it, from a store that differs only in
  the fetch cursor of that partition, which is now \<open>v\<close>.
\<close>

theorem out_of_range_resets_and_continues:
  assumes "fr_error resp = Some OffsetOutOfRangeError"
    and "map_of (fetch_offsets (offsets st)) (fr_topic resp, fr_partition resp) = Some previous"
    and "reset_partition_offset cl (Some OffsetOutOfRangeError) (fr_topic resp, fr_partition resp) st
           = (Inr v, st1)"
  shows "responses_loop cl (resp # rest) st
           = responses_loop cl rest (store_fetch (fr_topic resp, fr_partition resp) (VInt v) st1)
       \<and> offsets (store_fetch (fr_topic resp, fr_partition resp) (VInt v) st1)
           = (offsets st)\<lparr>fetch_offsets :=
               AList.update (fr_topic resp, fr_partition resp) (VInt v)
                 (fetch_offsets (offsets st))\<rparr>
       \<and> map_of (fetch_offsets (offsets
             (store_fetch (fr_topic resp, fr_partition resp) (VInt v) st1)))
           (fr_topic resp, fr_partition resp) = Some (VInt v)"
proof -
  have "offsets st1 = offsets st"
    using reset_partition_offset_offsets [of cl "Some OffsetOutOfRangeError"
        "(fr_topic resp, fr_partition resp)" st] assms(3) by simp
  then show ?thesis using assms
    by (simp add: check_error_def store_fetch_def update_conv')
qed


theorem out_of_range_resets_and_continues_witness:
  "case responses_loop example_client
          [FetchResponse ''orders'' 0 (Some OffsetOutOfRangeError) 3 [],
           FetchResponse ''orders'' 1 None 8 [(7, Message None ''m7'')]]
          (fetching_consumer [((''orders'', 0), VInt 5), ((''orders'', 1), VInt 7)]) of
     Some (Yield m, g, st') \<Rightarrow>
       m = KafkaMessage ''orders'' 1 7 None (VStr ''m7'') \<and>
       fetch_offsets (offsets st') = [((''orders'', 0), VInt 100), ((''orders'', 1), VInt 8)]
   | _ \<Rightarrow> False"
proof -
  let ?st = "fetching_consumer [((''orders'', 0), VInt 5), ((''orders'', 1), VInt 7)]"
  let ?resp = "FetchResponse ''orders'' 0 (Some OffsetOutOfRangeError) 3 []"
  let ?rest = "[FetchResponse ''orders'' 1 None 8 [(7, Message None ''m7'')]]"
  let ?st1 = "transmit (OffsetCall [OffsetRequest ''orders'' 0 (- 1) 1]) ?st"
  have h1: "fr_error ?resp = Some OffsetOutOfRangeError" by simp
  have h2: "map_of (fetch_offsets (offsets ?st)) (fr_topic ?resp, fr_partition ?resp)
              = Some (VInt 5)"
    by (simp add: fetching_consumer_def)
  have h3: "reset_partition_offset example_client (Some OffsetOutOfRangeError)
              (fr_topic ?resp, fr_partition ?resp) ?st = (Inr 100, ?st1)"
    by (simp add: reset_partition_offset_def get_partition_offsets_def fetching_consumer_def
          fresh_consumer_def example_config_def example_client_def LATEST_def check_error_def
          transmit_def Let_def)
  have eq: "responses_loop example_client (?resp # ?rest) ?st
              = responses_loop example_client ?rest
                  (store_fetch (fr_topic ?resp, fr_partition ?resp) (VInt 100) ?st1)"
    by (rule conjunct1 [OF out_of_range_resets_and_continues [OF h1 h2 h3]])
  show ?thesis
    unfolding eq
    by (simp add: check_error_def emit_def store_fetch_def transmit_def fetching_consumer_def
          fresh_consumer_def example_config_def Let_def)
qed

lemma emit_yield:
  assumes "emit resp om ms rest st = (Yield m, g', st')"
  shows "map_of (fetch_offsets (offsets st')) (km_topic m, km_partition m)
           = Some (VInt (km_offset m + 1))"
  using assms
  by (auto simp add: emit_def store_fetch_lookup split: prod.splits sum.splits)

lemma emit_raise:
  assumes "deserializer_class (config st) (m_value message) = Inl e"
  shows "emit resp (offset, message) ms rest st = (Raise e, Finished, st)"
  using assms by (simp add: emit_def)

lemma responses_loop_yield:
  assumes "responses_loop cl rs st = Some (Yield m, g', st')"
  shows "map_of (fetch_offsets (offsets st')) (km_topic m, km_partition m)
           = Some (VInt (km_offset m + 1))"
  using assms
proof (induction rs arbitrary: st)
  case Nil
  then show ?case by simp
next
  case (Cons resp rest)
  let ?tp = "(fr_topic resp, fr_partition resp)"
  show ?case
  proof (cases "fr_error resp")
    case None
    let ?st1 = "st\<lparr>offsets := (offsets st)\<lparr>highwater_offsets :=
                  AList.update ?tp (Some (fr_highwaterMark resp))
                    (highwater_offsets (offsets st))\<rparr>\<rparr>"
    show ?thesis
    proof (cases "fr_messages resp")
      case Nil
      with None Cons.prems have "responses_loop cl rest ?st1 = Some (Yield m, g', st')"
        by (simp add: check_error_def)
      then show ?thesis by (rule Cons.IH)
    next
      case (Cons om ms)
      with None Cons.prems have "emit resp om ms rest ?st1 = (Yield m, g', st')"
        by (simp add: check_error_def)
      then show ?thesis by (rule emit_yield)
    qed
  next
    case (Some e)
    consider (range) "e = OffsetOutOfRangeError"
      | (leader) "e = NotLeaderForPartitionError"
      | (timed) "e = RequestTimedOutError"
      | (other) "e \<noteq> OffsetOutOfRangeError" "e \<noteq> NotLeaderForPartitionError"
                "e \<noteq> RequestTimedOutError"
      by blast
    then show ?thesis
    proof cases
      case range
      with Some Cons.prems obtain v st1 where
        "responses_loop cl rest (store_fetch ?tp (VInt v) st1) = Some (Yield m, g', st')"
        by (auto simp add: check_error_def Let_def split: option.splits prod.splits sum.splits)
      then show ?thesis by (rule Cons.IH)
    next
      case leader
      with Some Cons.prems obtain st1 where
        "responses_loop cl rest st1 = Some (Yield m, g', st')"
        by (auto simp add: check_error_def Let_def split: option.splits prod.splits sum.splits)
      then show ?thesis by (rule Cons.IH)
    next
      case timed
      with Some Cons.prems have "responses_loop cl rest st = Some (Yield m, g', st')"
        by (simp add: check_error_def)
      then show ?thesis by (rule Cons.IH)
    next
      case other
      with Some Cons.prems show ?thesis by (simp add: check_error_def)
    qed
  qed
qed

lemma msg_iter_next_yield:
  assumes "msg_iter_next cl g st = Some (Yield m, g', st')"
  shows "map_of (fetch_offsets (offsets st')) (km_topic m, km_partition m)
           = Some (VInt (km_offset m + 1))"
proof (cases g)
  case NotStarted
  with assms obtain responses st1 where
    "responses_loop cl responses st1 = Some (Yield m, g', st')"
    by (auto simp add: msg_iter_next_def Let_def
          split: sum.splits if_splits option.splits prod.splits)
  then show ?thesis by (rule responses_loop_yield)
next
  case (Suspended resp ms rest)
  show ?thesis
  proof (cases ms)
    case Nil
    with Suspended assms have "responses_loop cl rest st = Some (Yield m, g', st')"
      by (simp add: msg_iter_next_def)
    then show ?thesis by (rule responses_loop_yield)
  next
    case (Cons om ms')
    with Suspended assms have "emit resp om ms' rest st = (Yield m, g', st')"
      by (simp add: msg_iter_next_def)
    then show ?thesis by (rule emit_yield)
  qed
next
  case Finished
  with assms show ?thesis by (simp add: msg_iter_next_def)
qed


lemma fetch_requests_at_cursor:
  assumes "map_of (fetch_offsets (offsets st)) (t, p) = Some v"
  shows "FetchRequest t p v (fetch_message_max_bytes (config st)) \<in> set (fetch_requests st)"
proof -
  from assms have "((t, p), v) \<in> set (fetch_offsets (offsets st))" by (rule map_of_SomeD)
  then have "(\<lambda>(topic_partition, offset).
            FetchRequest (fst topic_partition) (snd topic_partition) offset
              (fetch_message_max_bytes (config st))) ((t, p), v) \<in> set (fetch_requests st)"
    unfolding fetch_requests_def set_map by (rule imageI)
  then show ?thesis by simp
qed

lemma first_message_raise:
  assumes "deserializer_class (config st) (m_value message) = Inl e"
    and "fr_error resp = None"
    and "fr_messages resp = (offset, message) # ms"
  shows "\<exists>st'. responses_loop cl (resp # rest) st = Some (Raise e, Finished, st')
              \<and> fetch_offsets (offsets st') = fetch_offsets (offsets st)
              \<and> fetch_requests st' = fetch_requests st"
  using assms by (simp add: check_error_def emit_def fetch_requests_def)

text \<open>
  C6, as the code has it. When the deserializer fails on a message, be it the next message
  of the response the generator is suspended in or the first message of a response, the
  pull raises that failure, the generator is finished (every later pull is StopIteration)
  and no fetch cursor has moved, so the next round sends the requests it would have sent
  before the message. A round asks each partition for the offset its cursor stands at, so
  it asks for the failing offset again exactly when the cursor stood there. Conversely,
  after every pull that yields a record the fetch cursor of the record's partition is the
  record's offset plus one.
\<close>

theorem deserializer_failure_keeps_cursor:
  "(deserializer_class (config st) (m_value message) = Inl e \<longrightarrow>
      msg_iter_next cl (Suspended resp ((offset, message) # ms) rest) st
        = Some (Raise e, Finished, st)
    \<and> (fr_error resp = None \<and> fr_messages resp = (offset, message) # ms \<longrightarrow>
         (\<exists>st'. responses_loop cl (resp # rest) st = Some (Raise e, Finished, st')
              \<and> fetch_offsets (offsets st') = fetch_offsets (offsets st)
              \<and> fetch_requests st' = fetch_requests st)))
   \<and> msg_iter_next cl Finished st = Some (StopIteration, Finished, st)
   \<and> (map_of (fetch_offsets (offsets st)) (t, p) = Some (VInt offset) \<longrightarrow>
        FetchRequest t p (VInt offset) (fetch_message_max_bytes (config st))
          \<in> set (fetch_requests st))
   \<and> (msg_iter_next cl g st = Some (Yield m, g', st') \<longrightarrow>
        map_of (fetch_offsets (offsets st')) (km_topic m, km_partition m)
          = Some (VInt (km_offset m + 1)))"
proof (intro conjI impI)
  assume "deserializer_class (config st) (m_value message) = Inl e"
  then show "msg_iter_next cl (Suspended resp ((offset, message) # ms) rest) st
        = Some (Raise e, Finished, st)"
    by (simp add: msg_iter_next_def emit_raise)
next
  assume "deserializer_class (config st) (m_value message) = Inl e"
    and "fr_error resp = None \<and> fr_messages resp = (offset, message) # ms"
  then show "\<exists>st'. responses_loop cl (resp # rest) st = Some (Raise e, Finished, st')
              \<and> fetch_offsets (offsets st') = fetch_offsets (offsets st)
              \<and> fetch_requests st' = fetch_requests st"
    using first_message_raise by blast
next
  show "msg_iter_next cl Finished st = Some (StopIteration, Finished, st)"
    by (simp add: msg_iter_next_def)
next
  assume "map_of (fetch_offsets (offsets st)) (t, p) = Some (VInt offset)"
  then show "FetchRequest t p (VInt offset) (fetch_message_max_bytes (config st))
          \<in> set (fetch_requests st)"
    by (rule fetch_requests_at_cursor)
next
  assume "msg_iter_next cl g st = Some (Yield m, g', st')"
  then show "map_of (fetch_offsets (offsets st')) (km_topic m, km_partition m)
          = Some (VInt (km_offset m + 1))"
    by (rule msg_iter_next_yield)
qed

theorem deserializer_failure_keeps_cursor_witness:
  "msg_iter_next example_client
     (Suspended (FetchResponse ''orders'' 0 None 9 [(6, Message None ''m6''), (7, Message None ''bad'')])
        [(7, Message None ''bad'')] [])
     (fetching_consumer [((''orders'', 0), VInt 7)])
     = Some (Raise DeserializerError, Finished, fetching_consumer [((''orders'', 0), VInt 7)])
   \<and> FetchRequest ''orders'' 0 (VInt 7) 1048576
        \<in> set (fetch_requests (fetching_consumer [((''orders'', 0), VInt 7)]))
   \<and> map_of (fetch_offsets (offsets
         (store_fetch (''orders'', 0) (VInt 7) (fetching_consumer [((''orders'', 0), VInt 6)]))))
        (''orders'', 0) = Some (VInt 7)"
proof -
  let ?resp = "FetchResponse ''orders'' 0 None 9 [(6, Message None ''m6''), (7, Message None ''bad'')]"
  let ?st7 = "fetching_consumer [((''orders'', 0), VInt 7)]"
  let ?st6 = "fetching_consumer [((''orders'', 0), VInt 6)]"
  let ?m = "KafkaMessage ''orders'' 0 6 None (VStr ''m6'')"
  have bad: "deserializer_class (config ?st7) (m_value (Message None ''bad'')) = Inl DeserializerError"
    by (simp add: fetching_consumer_def fresh_consumer_def example_config_def)
  have cur: "map_of (fetch_offsets (offsets ?st7)) (''orders'', 0) = Some (VInt 7)"
    by (simp add: fetching_consumer_def)
  have mx: "fetch_message_max_bytes (config ?st7) = 1048576"
    by (simp add: fetching_consumer_def fresh_consumer_def example_config_def)
  have yields: "msg_iter_next example_client (Suspended ?resp [(6, Message None ''m6''), (7, Message None ''bad'')] []) ?st6
      = Some (Yield ?m, Suspended ?resp [(7, Message None ''bad'')] [],
              store_fetch (''orders'', 0) (VInt 7) ?st6)"
    by (simp add: msg_iter_next_def emit_def fetching_consumer_def fresh_consumer_def
          example_config_def)
  from deserializer_failure_keeps_cursor
    [where st = ?st7 and message = "Message None ''bad''" and e = DeserializerError
       and cl = example_client and resp = ?resp and offset = 7 and ms = "[]" and rest = "[]"
       and t = "''orders''" and p = 0]
    bad cur mx
  have a: "msg_iter_next example_client (Suspended ?resp [(7, Message None ''bad'')] []) ?st7
             = Some (Raise DeserializerError, Finished, ?st7)"
    and b: "FetchRequest ''orders'' 0 (VInt 7) 1048576 \<in> set (fetch_requests ?st7)"
    by simp_all
  from deserializer_failure_keeps_cursor
    [where st = ?st6 and cl = example_client and m = ?m
       and g = "Suspended ?resp [(6, Message None ''m6''), (7, Message None ''bad'')] []"
       and g' = "Suspended ?resp [(7, Message None ''bad'')] []"
       and st' = "store_fetch (''orders'', 0) (VInt 7) ?st6"]
    yields
  have c: "map_of (fetch_offsets (offsets (store_fetch (''orders'', 0) (VInt 7) ?st6)))
        (''orders'', 0) = Some (VInt 7)"
    by simp
  from a b c show ?thesis by blast
qed

text \<open>
  C6 as the claim words it fails where the cursor does not stand at the failing offset.
  The cursor is 5. In a log with a gap the broker answers with the message at offset 7, on
  which the deserializer fails: the next round asks for offset 5, not 7. From a compressed
  batch the consumer gets the message at offset 3, on which the deserializer fails: the
  cursor stays at 5, past the failing offset, and the next round asks for 5.
\<close>

theorem deserializer_failure_counterexample:
  "(case msg_iter_next
          (answering_client [FetchResponse ''orders'' 0 None 9 [(7, Message None ''bad'')]])
          fetch_messages (fetching_consumer [((''orders'', 0), VInt 5)]) of
      Some (Raise e, g, st') \<Rightarrow>
        e = DeserializerError \<and> g = Finished \<and>
        fetch_requests st' = [FetchRequest ''orders'' 0 (VInt 5) 1048576]
    | _ \<Rightarrow> False)
 \<and> (case msg_iter_next
          (answering_client [FetchResponse ''orders'' 0 None 9 [(3, Message None ''bad'')]])
          fetch_messages (fetching_consumer [((''orders'', 0), VInt 5)]) of
      Some (Raise e, g, st') \<Rightarrow>
        e = DeserializerError \<and> g = Finished \<and>
        fetch_requests st' = [FetchRequest ''orders'' 0 (VInt 5) 1048576]
    | _ \<Rightarrow> False)"
  by (simp add: msg_iter_next_def fetch_messages_def answering_client_def example_client_def
        fetching_consumer_def fresh_consumer_def example_config_def fetch_requests_def
        transmit_def check_error_def emit_def Let_def)

section \<open>Iterating: the consumer timeout\<close>

lemma unaffected_refl: "unaffected st st"
  by (simp add: unaffected_def)

lemma unaffected_trans: "unaffected a b \<Longrightarrow> unaffected b c \<Longrightarrow> unaffected a c"
  by (simp add: unaffected_def)

lemma unaffected_transmit: "\<not> is_fetch_call c \<Longrightarrow> unaffected st (transmit c st)"
  by (simp add: unaffected_def transmit_def fetch_rounds_def)

lemma unaffected_store_fetch: "unaffected st (store_fetch tp v st)"
  by (simp add: unaffected_def store_fetch_def fetch_rounds_def)

lemma unaffected_check_consumer_timeout: "unaffected st (snd (check_consumer_timeout cl st))"
  by (simp add: unaffected_def check_consumer_timeout_def time_time_def fetch_rounds_def
      split: timeout.splits)

lemma unaffected_refresh:
  assumes "refresh_metadata_on_error cl st = Some y"
  shows "unaffected st (snd y)"
proof (rule refresh_metadata_on_error.raw_induct
    [where P = "\<lambda>cl st y. unaffected st (snd y)", OF _ assms])
  fix f cl st y
  assume IH: "\<And>cl st y. f cl st = Some y \<Longrightarrow> unaffected st (snd y)"
    and eq: "(case load_metadata_for_topics cl of
        Inr metadata \<Rightarrow> Some (Inr (), (transmit MetadataCall st)\<lparr>topic_partitions := metadata\<rparr>)
      | Inl e \<Rightarrow>
          if e = KafkaUnavailableError then
            (case check_consumer_timeout cl (transmit MetadataCall st) of
               (Inl e', st1) \<Rightarrow> Some (Inl e', st1)
             | (Inr u, st1) \<Rightarrow> f cl st1)
          else Some (Inl e, transmit MetadataCall st)) = Some y"
  have tr: "unaffected st (transmit MetadataCall st)" by (simp add: unaffected_transmit)
  show "unaffected st (snd y)"
  proof (cases "load_metadata_for_topics cl")
    case (Inr metadata)
    with eq have "y = (Inr (), (transmit MetadataCall st)\<lparr>topic_partitions := metadata\<rparr>)" by simp
    then show ?thesis by (simp add: unaffected_def transmit_def fetch_rounds_def)
  next
    case (Inl e)
    show ?thesis
    proof (cases "e = KafkaUnavailableError")
      case False
      with Inl eq tr show ?thesis by auto
    next
      case True
      obtain r st1 where chk: "check_consumer_timeout cl (transmit MetadataCall st) = (r, st1)"
        by (cases "check_consumer_timeout cl (transmit MetadataCall st)")
      have u1: "unaffected st st1"
        using unaffected_check_consumer_timeout [of "transmit MetadataCall st" cl] chk tr
        by (auto intro: unaffected_trans)
      show ?thesis
      proof (cases r)
        case (Inl e')
        with \<open>load_metadata_for_topics cl = Inl e\<close> True chk eq have "y = (Inl e', st1)" by simp
        with u1 show ?thesis by simp
      next
        case (Inr u)
        with \<open>load_metadata_for_topics cl = Inl e\<close> True chk eq have "f cl st1 = Some y" by simp
        then have "unaffected st1 (snd y)" by (rule IH)
        with u1 show ?thesis by (rule unaffected_trans)
      qed
    qed
  qed
qed


lemma filter_fetch_OffsetCall: "filter is_fetch_call (map OffsetCall reqs) = []"
  by (induction reqs) simp_all

lemma unaffected_reset: "unaffected st (snd (reset_partition_offset cl exc tp st))"
proof -
  obtain reqs where
    "snd (reset_partition_offset cl exc tp st) = st\<lparr>sent := sent st @ map OffsetCall reqs\<rparr>"
    using reset_partition_offset_frame [of cl exc tp st] by blast
  then show ?thesis by (simp add: unaffected_def fetch_rounds_def filter_fetch_OffsetCall)
qed

lemma unaffected_emit: "unaffected st (snd (snd (emit resp om ms rest st)))"
  by (simp add: emit_def unaffected_refl unaffected_store_fetch split: prod.splits sum.splits)

lemma unaffected_responses_loop:
  assumes "responses_loop cl rs st = Some (r, g', st')"
  shows "unaffected st st'"
  using assms
proof (induction rs arbitrary: st)
  case Nil
  then show ?case by (simp add: unaffected_refl)
next
  case (Cons resp rest)
  let ?tp = "(fr_topic resp, fr_partition resp)"
  show ?case
  proof (cases "fr_error resp")
    case None
    let ?st1 = "st\<lparr>offsets := (offsets st)\<lparr>highwater_offsets :=
                  AList.update ?tp (Some (fr_highwaterMark resp))
                    (highwater_offsets (offsets st))\<rparr>\<rparr>"
    have u1: "unaffected st ?st1" by (simp add: unaffected_def fetch_rounds_def)
    show ?thesis
    proof (cases "fr_messages resp")
      case Nil
      with None Cons.prems have "responses_loop cl rest ?st1 = Some (r, g', st')"
        by (simp add: check_error_def)
      then have "unaffected ?st1 st'" by (rule Cons.IH)
      with u1 show ?thesis by (rule unaffected_trans)
    next
      case (Cons om ms)
      with None Cons.prems have "emit resp om ms rest ?st1 = (r, g', st')"
        by (simp add: check_error_def)
      then have "unaffected ?st1 st'" using unaffected_emit [of ?st1 resp om ms rest] by simp
      with u1 show ?thesis by (rule unaffected_trans)
    qed
  next
    case (Some e)
    consider (range) "e = OffsetOutOfRangeError"
      | (leader) "e = NotLeaderForPartitionError"
      | (timed) "e = RequestTimedOutError"
      | (other) "e \<noteq> OffsetOutOfRangeError" "e \<noteq> NotLeaderForPartitionError"
                "e \<noteq> RequestTimedOutError"
      by blast
    then show ?thesis
    proof cases
      case range
      obtain x st1 where rs: "reset_partition_offset cl (Some e) ?tp st = (x, st1)"
        by (cases "reset_partition_offset cl (Some e) ?tp st")
      have u1: "unaffected st st1" using unaffected_reset [of st cl "Some e" ?tp] rs by simp
      show ?thesis
      proof (cases "map_of (fetch_offsets (offsets st)) ?tp")
        case None
        with Some range Cons.prems show ?thesis
          by (simp add: check_error_def unaffected_refl)
      next
        case (Some previous)
        show ?thesis
        proof (cases x)
          case (Inl e')
          with \<open>fr_error resp = Some e\<close> range Some rs Cons.prems u1 show ?thesis
            by (simp add: check_error_def)
        next
          case (Inr v)
          with \<open>fr_error resp = Some e\<close> range Some rs Cons.prems
          have "responses_loop cl rest (store_fetch ?tp (VInt v) st1) = Some (r, g', st')"
            by (simp add: check_error_def)
          then have "unaffected (store_fetch ?tp (VInt v) st1) st'" by (rule Cons.IH)
          with u1 unaffected_store_fetch [of st1 ?tp "VInt v"] show ?thesis
            by (blast intro: unaffected_trans)
        qed
      qed
    next
      case leader
      show ?thesis
      proof (cases "refresh_metadata_on_error cl st")
        case None
        with Some leader Cons.prems show ?thesis by (simp add: check_error_def)
      next
        case (Some y)
        obtain x st1 where y: "y = (x, st1)" by (cases y)
        have u1: "unaffected st st1" using unaffected_refresh [OF Some] y by simp
        show ?thesis
        proof (cases x)
          case (Inl e')
          with \<open>fr_error resp = Some e\<close> leader Some y Cons.prems u1 show ?thesis
            by (simp add: check_error_def)
        next
          case (Inr u)
          with \<open>fr_error resp = Some e\<close> leader Some y Cons.prems
          have "responses_loop cl rest st1 = Some (r, g', st')"
            by (simp add: check_error_def)
          then have "unaffected st1 st'" by (rule Cons.IH)
          with u1 show ?thesis by (rule unaffected_trans)
        qed
      qed
    next
      case timed
      with Some Cons.prems have "responses_loop cl rest st = Some (r, g', st')"
        by (simp add: check_error_def)
      then show ?thesis by (rule Cons.IH)
    next
      case other
      with Some Cons.prems show ?thesis by (simp add: check_error_def unaffected_refl)
    qed
  qed
qed


lemma msg_iter_next_rounds:
  assumes "msg_iter_next cl g st = Some (r, g', st')"
  shows "consumer_timeout st' = consumer_timeout st \<and> config st' = config st \<and>
         fetch_rounds st' \<le> fetch_rounds st + 1"
proof -
  have weaken: "consumer_timeout b = consumer_timeout a \<and> config b = config a \<and>
         fetch_rounds b \<le> fetch_rounds a + 1" if "unaffected a b" for a b
    using that by (simp add: unaffected_def)
  show ?thesis
  proof (cases g)
    case NotStarted
    let ?st1 = "transmit (FetchCall (fetch_requests st)) st"
    have st1: "consumer_timeout ?st1 = consumer_timeout st" "config ?st1 = config st"
      "fetch_rounds ?st1 = fetch_rounds st + 1"
      by (simp_all add: transmit_def fetch_rounds_def)
    have "unaffected ?st1 st'"
    proof (cases "send_fetch_request cl (fetch_requests st) (fetch_wait_max_ms (config st))
                     (fetch_min_bytes (config st))")
      case (Inr responses)
      with NotStarted assms have "responses_loop cl responses ?st1 = Some (r, g', st')"
        by (simp add: msg_iter_next_def Let_def)
      then show ?thesis by (rule unaffected_responses_loop)
    next
      case (Inl e)
      show ?thesis
      proof (cases "e = FailedPayloadsError")
        case False
        with Inl NotStarted assms show ?thesis
          by (simp add: msg_iter_next_def Let_def unaffected_refl)
      next
        case True
        with Inl NotStarted assms obtain y where
          y: "refresh_metadata_on_error cl ?st1 = Some y" and "st' = snd y"
          by (auto simp add: msg_iter_next_def Let_def split: option.splits sum.splits)
        with unaffected_refresh [OF y] show ?thesis by simp
      qed
    qed
    with st1 show ?thesis by (simp add: unaffected_def)
  next
    case (Suspended resp ms rest)
    have "unaffected st st'"
    proof (cases ms)
      case Nil
      with Suspended assms have "responses_loop cl rest st = Some (r, g', st')"
        by (simp add: msg_iter_next_def)
      then show ?thesis by (rule unaffected_responses_loop)
    next
      case (Cons om ms')
      with Suspended assms have "emit resp om ms' rest st = (r, g', st')"
        by (simp add: msg_iter_next_def)
      then show ?thesis using unaffected_emit [of st resp om ms' rest] by simp
    qed
    then show ?thesis by (rule weaken)
  next
    case Finished
    with assms show ?thesis by (simp add: msg_iter_next_def)
  qed
qed

lemma unaffected_should_auto_commit: "unaffected st (snd (should_auto_commit cl st))"
  by (simp add: should_auto_commit_def unaffected_def time_time_def fetch_rounds_def
      split: option.splits)

lemma commit_acks_consumer_timeout:
  "consumer_timeout (snd (commit_acks rs st)) = consumer_timeout st"
  by (induction rs arbitrary: st) (auto simp add: Let_def split: sum.splits option.splits)

lemma unaffected_commit_acks: "unaffected st (snd (commit_acks rs st))"
  by (simp add: unaffected_def fetch_rounds_def commit_acks_consumer_timeout commit_acks_config
        commit_acks_sent)

lemma unaffected_set_next_auto_commit_time: "unaffected st (set_next_auto_commit_time cl st)"
  by (simp add: unaffected_def fetch_rounds_def set_next_auto_commit_time_def time_time_def)

lemma unaffected_commit: "unaffected st (snd (commit cl st))"
proof -
  have acks: "unaffected st (snd (commit_acks resps (transmit (OffsetCommitCall grp commits) st)))"
    for resps grp commits
    using unaffected_transmit [of "OffsetCommitCall grp commits" st]
      unaffected_commit_acks [of "transmit (OffsetCommitCall grp commits) st" resps]
    by (auto intro: unaffected_trans)
  have "unaffected st (snd (case commit_acks resps (transmit (OffsetCommitCall grp commits) st) of
                            (Inl e, st2) \<Rightarrow> (Inl e, st2)
                          | (Inr u, st2) \<Rightarrow>
                              (Inr True,
                               if auto_commit_enable (config st2)
                               then set_next_auto_commit_time cl st2 else st2)))"
    for resps grp commits
    using acks [of resps grp commits] unaffected_set_next_auto_commit_time
    by (auto split: prod.splits sum.splits intro: unaffected_trans)
  then show ?thesis
    by (simp add: commit_def Let_def unaffected_refl unaffected_transmit split: sum.splits)
qed


lemma check_consumer_timeout_Disabled:
  "consumer_timeout s = Disabled \<Longrightarrow> check_consumer_timeout cl s = (Inr (), s)"
  by (simp add: check_consumer_timeout_def)

lemma check_consumer_timeout_elapsed:
  assumes "consumer_timeout s = Deadline d" and "d \<noteq> 0" and "d < clock cl (ticks s)"
  shows "check_consumer_timeout cl s = (Inl ConsumerTimeout, s\<lparr>ticks := Suc (ticks s)\<rparr>)"
  using assms by (simp add: check_consumer_timeout_def time_time_def)

lemma next_timeout_zero:
  assumes zero: "consumer_timeout_ms (config st) = 0"
    and g: "g = (case msg_iter st of None \<Rightarrow> fetch_messages | Some it \<Rightarrow> it)"
    and due: "should_auto_commit cl ((set_consumer_timeout_start cl st)\<lparr>msg_iter := Some g\<rparr>)
                = (Inr due, st1)"
    and com: "(if due then commit cl st1 else (Inr False, st1)) = (Inr c, st2)"
    and pull: "msg_iter_next cl g st2 = Some (StopIteration, g', st3)"
    and start: "clock cl (ticks st) \<noteq> 0"
    and later: "clock cl (ticks st) < clock cl (ticks st3)"
  shows "consumer_next cl st
           = Some (Inl ConsumerTimeout, st3\<lparr>msg_iter := None, ticks := Suc (ticks st3)\<rparr>)"
    and "fetch_rounds st3 \<le> fetch_rounds st + 1"
proof -
  let ?st0 = "set_consumer_timeout_start cl st"
  let ?st0' = "?st0\<lparr>msg_iter := Some g\<rparr>"
  have st0: "consumer_timeout ?st0' = Deadline (clock cl (ticks st))"
    "config ?st0' = config st" "fetch_rounds ?st0' = fetch_rounds st" "msg_iter ?st0 = msg_iter st"
    using zero by (simp_all add: set_consumer_timeout_start_def time_time_def fetch_rounds_def)
  have u1: "unaffected ?st0' st1"
    using unaffected_should_auto_commit [of ?st0' cl] due by simp
  have u2: "unaffected st1 st2"
    using unaffected_commit [of st1 cl] com by (auto simp add: unaffected_refl split: if_splits)
  from u1 u2 have u02: "unaffected ?st0' st2" by (rule unaffected_trans)
  from msg_iter_next_rounds [OF pull] u02 st0
  have st3: "consumer_timeout st3 = Deadline (clock cl (ticks st))"
    and rounds: "fetch_rounds st3 \<le> fetch_rounds st + 1"
    by (simp_all add: unaffected_def)
  have chk: "check_consumer_timeout cl (st3\<lparr>msg_iter := None\<rparr>)
               = (Inl ConsumerTimeout, st3\<lparr>msg_iter := None, ticks := Suc (ticks st3)\<rparr>)"
    using check_consumer_timeout_elapsed [of "st3\<lparr>msg_iter := None\<rparr>" "clock cl (ticks st)" cl]
      st3 start later by simp
  have pass: "next_iteration cl ?st0
                = Some (Some (Inl ConsumerTimeout),
                        st3\<lparr>msg_iter := None, ticks := Suc (ticks st3)\<rparr>)"
    using g due com pull chk
    by (simp add: next_iteration_def Let_def st0(4) split: if_splits)
  show "consumer_next cl st
           = Some (Inl ConsumerTimeout, st3\<lparr>msg_iter := None, ticks := Suc (ticks st3)\<rparr>)"
    unfolding consumer_next_def by (subst next_loop.simps) (simp add: pass)
  show "fetch_rounds st3 \<le> fetch_rounds st + 1" by (rule rounds)
qed

text \<open>
  C7, as the code has it. Let \<^verbatim>\<open>consumer_timeout_ms\<close> be 0, let the auto-commit check of
  the first pass raise nothing, let the pull of that pass (which starts a fetch round if no
  batch is active) end without a record, and let the clock at the timeout check read a later
  value than the non-zero value it read when \<^verbatim>\<open>next\<close> started. Then \<^verbatim>\<open>next\<close> raises
  the consumer timeout, and at most one fetch round was issued. With a negative
  \<^verbatim>\<open>consumer_timeout_ms\<close> the deadline is \<^verbatim>\<open>False\<close>, and no check against such a
  deadline raises.
\<close>

theorem next_raises_timeout_after_one_round:
  "(consumer_timeout_ms (config st) = 0
      \<and> g = (case msg_iter st of None \<Rightarrow> fetch_messages | Some it \<Rightarrow> it)
      \<and> should_auto_commit cl ((set_consumer_timeout_start cl st)\<lparr>msg_iter := Some g\<rparr>)
           = (Inr due, st1)
      \<and> (if due then commit cl st1 else (Inr False, st1)) = (Inr c, st2)
      \<and> msg_iter_next cl g st2 = Some (StopIteration, g', st3)
      \<and> clock cl (ticks st) \<noteq> 0
      \<and> clock cl (ticks st) < clock cl (ticks st3)
    \<longrightarrow> consumer_next cl st
          = Some (Inl ConsumerTimeout, st3\<lparr>msg_iter := None, ticks := Suc (ticks st3)\<rparr>)
        \<and> fetch_rounds st3 \<le> fetch_rounds st + 1)
 \<and> (consumer_timeout_ms (config st) < 0
    \<longrightarrow> consumer_timeout (set_consumer_timeout_start cl st) = Disabled
        \<and> (\<forall>s. consumer_timeout s = Disabled \<longrightarrow> check_consumer_timeout cl s = (Inr (), s)))"
proof (intro conjI impI allI)
  assume h: "consumer_timeout_ms (config st) = 0
      \<and> g = (case msg_iter st of None \<Rightarrow> fetch_messages | Some it \<Rightarrow> it)
      \<and> should_auto_commit cl ((set_consumer_timeout_start cl st)\<lparr>msg_iter := Some g\<rparr>)
           = (Inr due, st1)
      \<and> (if due then commit cl st1 else (Inr False, st1)) = (Inr c, st2)
      \<and> msg_iter_next cl g st2 = Some (StopIteration, g', st3)
      \<and> clock cl (ticks st) \<noteq> 0
      \<and> clock cl (ticks st) < clock cl (ticks st3)"
  then show "consumer_next cl st
          = Some (Inl ConsumerTimeout, st3\<lparr>msg_iter := None, ticks := Suc (ticks st3)\<rparr>)"
    using next_timeout_zero(1) [of st g cl due st1 c st2 g' st3] by blast
  from h show "fetch_rounds st3 \<le> fetch_rounds st + 1"
    using next_timeout_zero(2) [of st g cl due st1 c st2 g' st3] by blast
next
  assume "consumer_timeout_ms (config st) < 0"
  then show "consumer_timeout (set_consumer_timeout_start cl st) = Disabled"
    by (simp add: set_consumer_timeout_start_def)
next
  fix s :: consumer assume "consumer_timeout s = Disabled"
  then show "check_consumer_timeout cl s = (Inr (), s)"
    by (rule check_consumer_timeout_Disabled)
qed


theorem next_raises_timeout_after_one_round_witness:
  "(case consumer_next example_client (fetching_consumer [((''orders'', 0), VInt 100)]) of
      Some (Inl e, st') \<Rightarrow> e = ConsumerTimeout \<and> fetch_rounds st' = 1
    | _ \<Rightarrow> False)
 \<and> consumer_timeout (set_consumer_timeout_start example_client
        (fresh_consumer (example_config\<lparr>consumer_timeout_ms := - 1\<rparr>))) = Disabled"
proof -
  let ?st = "fetching_consumer [((''orders'', 0), VInt 100)]"
  let ?st1 = "(set_consumer_timeout_start example_client ?st)\<lparr>msg_iter := Some fetch_messages\<rparr>"
  let ?st3 = "transmit (FetchCall (fetch_requests ?st1)) ?st1"
  let ?neg = "fresh_consumer (example_config\<lparr>consumer_timeout_ms := - 1\<rparr>)"
  have cfg: "config ?st = example_config" "msg_iter ?st = None" "ticks ?st = 0" "sent ?st = []"
    by (simp_all add: fetching_consumer_def fresh_consumer_def)
  have cfg1: "config (set_consumer_timeout_start example_client ?st) = example_config"
    "ticks (set_consumer_timeout_start example_client ?st) = Suc 0"
    "sent (set_consumer_timeout_start example_client ?st) = []"
    by (simp_all add: set_consumer_timeout_start_def time_time_def cfg example_config_def)
  have h1: "consumer_timeout_ms (config ?st) = 0" by (simp add: cfg example_config_def)
  have h2: "fetch_messages = (case msg_iter ?st of None \<Rightarrow> fetch_messages | Some it \<Rightarrow> it)"
    by (simp add: cfg)
  have h3: "should_auto_commit example_client ?st1 = (Inr False, ?st1)"
    by (simp add: should_auto_commit_def cfg1 example_config_def)
  have h4: "(if False then commit example_client ?st1 else (Inr False, ?st1)) = (Inr False, ?st1)"
    by simp
  have h5: "msg_iter_next example_client fetch_messages ?st1 = Some (StopIteration, Finished, ?st3)"
    by (simp add: msg_iter_next_def fetch_messages_def example_client_def Let_def)
  have t3: "ticks ?st3 = 1" by (simp add: transmit_def cfg1)
  have h6: "clock example_client (ticks ?st) \<noteq> 0"
    unfolding cfg(3) by (simp add: example_client_def)
  have h7: "clock example_client (ticks ?st) < clock example_client (ticks ?st3)"
    unfolding cfg(3) t3 by (simp add: example_client_def)
  have h8: "consumer_timeout_ms (config ?neg) < 0"
    by (simp add: fresh_consumer_def example_config_def)
  from next_raises_timeout_after_one_round
    [where st = ?st and g = fetch_messages and cl = example_client and due = False
       and ?st1.0 = ?st1 and c = False and ?st2.0 = ?st1 and g' = Finished and ?st3.0 = ?st3]
    h1 h2 h3 h4 h5 h6 h7
  have a: "consumer_next example_client ?st
             = Some (Inl ConsumerTimeout, ?st3\<lparr>msg_iter := None, ticks := Suc (ticks ?st3)\<rparr>)"
    by blast
  have r: "fetch_rounds (?st3\<lparr>msg_iter := None, ticks := Suc (ticks ?st3)\<rparr>) = 1"
    by (simp add: fetch_rounds_def transmit_def cfg1)
  from next_raises_timeout_after_one_round [where st = ?neg and cl = example_client] h8
  have b: "consumer_timeout (set_consumer_timeout_start example_client ?neg) = Disabled"
    by blast
  show ?thesis unfolding a using r b by simp
qed

lemma frozen_pass:
  assumes "config st = example_config" and "consumer_timeout st = Deadline 1000"
    and "msg_iter st = None"
  shows "\<exists>st'. next_iteration frozen_client st = Some (None, st') \<and>
           config st' = example_config \<and> consumer_timeout st' = Deadline 1000 \<and>
           msg_iter st' = None"
  using assms
  by (simp add: next_iteration_def should_auto_commit_def msg_iter_next_def fetch_messages_def
        frozen_client_def example_client_def example_config_def check_consumer_timeout_def
        time_time_def transmit_def Let_def)

lemma frozen_never_returns:
  assumes "next_loop cl st = Some y"
  shows "\<not> (cl = frozen_client \<and> config st = example_config \<and>
            consumer_timeout st = Deadline 1000 \<and> msg_iter st = None)"
proof (rule next_loop.raw_induct
    [where P = "\<lambda>cl st y. \<not> (cl = frozen_client \<and> config st = example_config \<and>
                  consumer_timeout st = Deadline 1000 \<and> msg_iter st = None)", OF _ assms])
  fix f cl st and y :: "(error + KafkaMessage) \<times> consumer"
  assume IH: "\<And>cl st y. f cl st = Some y \<Longrightarrow>
                \<not> (cl = frozen_client \<and> config st = example_config \<and>
                   consumer_timeout st = Deadline 1000 \<and> msg_iter st = None)"
    and eq: "(case next_iteration cl st of
                None \<Rightarrow> None
              | Some (Some r, st1) \<Rightarrow> Some (r, st1)
              | Some (None, st1) \<Rightarrow> f cl st1) = Some y"
  show "\<not> (cl = frozen_client \<and> config st = example_config \<and>
            consumer_timeout st = Deadline 1000 \<and> msg_iter st = None)"
  proof
    assume inv: "cl = frozen_client \<and> config st = example_config \<and>
            consumer_timeout st = Deadline 1000 \<and> msg_iter st = None"
    then obtain st' where pass: "next_iteration frozen_client st = Some (None, st')"
      and inv': "config st' = example_config \<and> consumer_timeout st' = Deadline 1000 \<and>
                 msg_iter st' = None"
      using frozen_pass [of st] by blast
    from eq inv pass have "f frozen_client st' = Some y" by simp
    from IH [OF this] inv' show False by simp
  qed
qed

text \<open>
  C7 as the claim words it fails when the clock does not move: the check of line 573 is
  \<^verbatim>\<open>time.time() > self._consumer_timeout\<close>, and with \<^verbatim>\<open>consumer_timeout_ms = 0\<close>
  the deadline is the reading taken at the start. With a clock that reads 1000 every time
  and nothing to fetch, \<^verbatim>\<open>next\<close> raises nothing and never returns: it issues one fetch
  round after the other.
\<close>

theorem next_frozen_clock_counterexample:
  "consumer_next frozen_client (fetching_consumer [((''orders'', 0), VInt 100)]) = None"
proof (rule ccontr)
  let ?st = "fetching_consumer [((''orders'', 0), VInt 100)]"
  assume "consumer_next frozen_client ?st \<noteq> None"
  then obtain y where "next_loop frozen_client (set_consumer_timeout_start frozen_client ?st) = Some y"
    by (auto simp add: consumer_next_def)
  from frozen_never_returns [OF this] show False
    by (simp add: set_consumer_timeout_start_def time_time_def fetching_consumer_def
          fresh_consumer_def example_config_def frozen_client_def)
qed

section \<open>Partition resolution seeds the cursors\<close>

lemma kept_refl: "kept st st" by (simp add: kept_def)

lemma kept_trans: "kept a b \<Longrightarrow> kept b c \<Longrightarrow> kept a c" by (simp add: kept_def)

lemma consume_topic_partition_Inr:
  assumes "consume_topic_partition topic part st = Inr (tp, st')"
  shows "topic = VStr (fst tp)" and "part = VInt (snd tp)"
    and "st' = st\<lparr>topics := topics st @ [tp]\<rparr>"
  using assms
  by (auto simp add: consume_topic_partition_def split: pyval.splits if_splits)

lemma consume_topic_partition_kept:
  assumes "consume_topic_partition topic part st = Inr (tp, st')"
  shows "kept st st'" and "fetch_offsets (offsets st') = fetch_offsets (offsets st)"
  using consume_topic_partition_Inr(3) [OF assms] by (simp_all add: kept_def)

lemma consume_partitions_kept:
  assumes "consume_partitions topic ps st = Inr st'"
  shows "kept st st' \<and> fetch_offsets (offsets st') = fetch_offsets (offsets st)"
  using assms
proof (induction ps arbitrary: st)
  case Nil
  then show ?case by (simp add: kept_refl)
next
  case (Cons p ps)
  from Cons.prems obtain tp st1 where
    one: "consume_topic_partition topic p st = Inr (tp, st1)"
    and rest: "consume_partitions topic ps st1 = Inr st'"
    by (auto split: sum.splits)
  from Cons.IH [OF rest] consume_topic_partition_kept [OF one] show ?case
    by (auto intro: kept_trans)
qed

lemma store_fetch_kept: "kept st (store_fetch tp v st)"
  by (simp add: kept_def store_fetch_def)

lemma store_fetch_map:
  "map_of (fetch_offsets (offsets (store_fetch tp v st)))
     = map_of (fetch_offsets (offsets st)) ++ map_of [(tp, v)]"
  by (simp add: store_fetch_def update_conv')

lemma consume_tuple_fetch:
  assumes "consume_tuple xs st = Inr st'"
  shows "kept st st' \<and>
         map_of (fetch_offsets (offsets st'))
           = map_of (fetch_offsets (offsets st)) ++ map_of (rev (explicit_of_arg (VTuple xs)))"
proof -
  from assms obtain topic part where two: "take 2 xs = [topic, part]"
    by (auto simp add: consume_tuple_def split: list.splits)
  then obtain more where xs: "xs = topic # part # more"
    by (cases xs; cases "tl xs") auto
  from assms two obtain tp st1 where
    one: "consume_topic_partition topic part st = Inr (tp, st1)"
    and st': "st' = (if length xs = 3 then store_fetch tp (xs ! 2) st1 else st1)"
    by (auto simp add: consume_tuple_def split: if_splits sum.splits)
  note shape = consume_topic_partition_Inr(1,2) [OF one]
  note k1 = consume_topic_partition_kept [OF one]
  show ?thesis
  proof (cases "length xs = 3")
    case True
    with xs obtain v where more: "more = [v]" by (cases more) auto
    have "explicit_of_arg (VTuple xs) = [(tp, v)]"
      using xs more shape by (cases tp) simp
    moreover have "st' = store_fetch tp v st1" using st' True xs more by simp
    ultimately show ?thesis
      using k1 store_fetch_kept [of st1 tp v] by (auto simp add: store_fetch_map intro: kept_trans)
  next
    case False
    with xs have "explicit_of_arg (VTuple xs) = []"
      using shape by (cases more; cases "tl more") auto
    with False st' k1 show ?thesis by simp
  qed
qed


lemma consume_dict_step:
  assumes "consume_dict ((key, val) # items) st = Inr st'"
  shows "\<exists>st1. consume_dict items st1 = Inr st' \<and> kept st st1 \<and>
           map_of (fetch_offsets (offsets st1))
             = map_of (fetch_offsets (offsets st)) ++ map_of (rev (explicit_of_item (key, val)))"
proof (cases key)
  case (VStr t)
  then have none: "explicit_of_item (key, val) = []" by simp
  from assms VStr obtain st1 where rest: "consume_dict items st1 = Inr st'"
    and step: "(\<exists>tp. consume_topic_partition key val st = Inr (tp, st1))
               \<or> (\<exists>ps. consume_partitions key ps st = Inr st1)"
    by (cases val) (auto split: sum.splits)
  from step have "kept st st1 \<and> fetch_offsets (offsets st1) = fetch_offsets (offsets st)"
    using consume_topic_partition_kept consume_partitions_kept by blast
  with rest none show ?thesis by auto
next
  case (VTuple ks)
  from assms VTuple obtain topic part where ks: "ks = [topic, part]"
    by (cases ks; cases "tl ks"; cases "tl (tl ks)") auto
  from assms VTuple ks obtain tp st1 where
    one: "consume_topic_partition topic part st = Inr (tp, st1)"
    and rest: "consume_dict items (store_fetch tp val st1) = Inr st'"
    by (auto split: sum.splits)
  note shape = consume_topic_partition_Inr(1,2) [OF one]
  note k1 = consume_topic_partition_kept [OF one]
  have "explicit_of_item (key, val) = [(tp, val)]"
    using VTuple ks shape by (cases tp) simp
  moreover have "kept st (store_fetch tp val st1)"
    using k1(1) store_fetch_kept [of st1 tp val] by (rule kept_trans)
  moreover have "map_of (fetch_offsets (offsets (store_fetch tp val st1)))
                   = map_of (fetch_offsets (offsets st)) ++ map_of [(tp, val)]"
    using k1(2) by (simp add: store_fetch_map)
  ultimately show ?thesis using rest by auto
next
  case VNone
  with assms show ?thesis by (auto simp add: kept_refl)
next
  case (VInt i)
  with assms show ?thesis by (auto simp add: kept_refl)
next
  case (VList l)
  with assms show ?thesis by (auto simp add: kept_refl)
next
  case (VDict d)
  with assms show ?thesis by (auto simp add: kept_refl)
qed

lemma consume_dict_fetch:
  assumes "consume_dict items st = Inr st'"
  shows "kept st st' \<and>
         map_of (fetch_offsets (offsets st'))
           = map_of (fetch_offsets (offsets st))
               ++ map_of (rev (concat (map explicit_of_item items)))"
  using assms
proof (induction items arbitrary: st)
  case Nil
  then show ?case by (simp add: kept_refl)
next
  case (Cons item items)
  obtain key val where item: "item = (key, val)" by (cases item)
  from consume_dict_step [OF Cons.prems [unfolded item]] obtain st1 where
    rest: "consume_dict items st1 = Inr st'" and k1: "kept st st1"
    and f1: "map_of (fetch_offsets (offsets st1))
             = map_of (fetch_offsets (offsets st)) ++ map_of (rev (explicit_of_item (key, val)))"
    by blast
  from Cons.IH [OF rest] have k2: "kept st1 st'"
    and f2: "map_of (fetch_offsets (offsets st'))
           = map_of (fetch_offsets (offsets st1))
               ++ map_of (rev (concat (map explicit_of_item items)))"
    by simp_all
  from k1 k2 have "kept st st'" by (rule kept_trans)
  moreover have "map_of (fetch_offsets (offsets st'))
           = map_of (fetch_offsets (offsets st))
               ++ map_of (rev (concat (map explicit_of_item (item # items))))"
    by (simp add: f2 f1 item)
  ultimately show ?case by simp
qed

lemma consume_arg_fetch:
  assumes "(case arg of
              VStr t \<Rightarrow> consume_partitions arg (map VInt (get_partition_ids_for_topic st t)) st
            | VTuple xs \<Rightarrow> consume_tuple xs st
            | VDict items \<Rightarrow> consume_dict items st
            | _ \<Rightarrow> Inl KafkaConfigurationError) = Inr st1"
  shows "kept st st1 \<and>
         map_of (fetch_offsets (offsets st1))
           = map_of (fetch_offsets (offsets st)) ++ map_of (rev (explicit_of_arg arg))"
proof (cases arg)
  case (VStr t)
  with assms consume_partitions_kept [of arg "map VInt (get_partition_ids_for_topic st t)" st st1]
  show ?thesis by simp
next
  case (VTuple xs)
  with assms consume_tuple_fetch [of xs st st1] show ?thesis by simp
next
  case (VDict items)
  with assms consume_dict_fetch [of items st st1] show ?thesis by simp
next
  case VNone
  with assms show ?thesis by simp
next
  case (VInt i)
  with assms show ?thesis by simp
next
  case (VList l)
  with assms show ?thesis by simp
qed

lemma consume_args_fetch:
  assumes "consume_args args st = Inr st'"
  shows "kept st st' \<and>
         map_of (fetch_offsets (offsets st'))
           = map_of (fetch_offsets (offsets st)) ++ explicit_offset args"
  using assms
proof (induction args arbitrary: st)
  case Nil
  then show ?case by (simp add: kept_refl explicit_offset_def)
next
  case (Cons arg args)
  from Cons.prems obtain st1 where
    one: "(case arg of
              VStr t \<Rightarrow> consume_partitions arg (map VInt (get_partition_ids_for_topic st t)) st
            | VTuple xs \<Rightarrow> consume_tuple xs st
            | VDict items \<Rightarrow> consume_dict items st
            | _ \<Rightarrow> Inl KafkaConfigurationError) = Inr st1"
    and rest: "consume_args args st1 = Inr st'"
    by (auto split: sum.splits)
  from consume_arg_fetch [OF one] have k1: "kept st st1"
    and f1: "map_of (fetch_offsets (offsets st1))
           = map_of (fetch_offsets (offsets st)) ++ map_of (rev (explicit_of_arg arg))"
    by simp_all
  from Cons.IH [OF rest] have k2: "kept st1 st'"
    and f2: "map_of (fetch_offsets (offsets st'))
           = map_of (fetch_offsets (offsets st1)) ++ explicit_offset args"
    by simp_all
  from k1 k2 have "kept st st'" by (rule kept_trans)
  moreover have "map_of (fetch_offsets (offsets st'))
           = map_of (fetch_offsets (offsets st)) ++ explicit_offset (arg # args)"
    by (simp add: f2 f1 explicit_offset_def)
  ultimately show ?case by simp
qed


lemma get_partition_offsets_fst_config:
  "fst (get_partition_offsets cl t p rt n a) = fst (get_partition_offsets cl t p rt n b)"
  by (simp add: get_partition_offsets_def Let_def split: sum.splits list.splits)

lemma reset_fst_config:
  assumes "config a = config b"
  shows "fst (reset_partition_offset cl exc tp a) = fst (reset_partition_offset cl exc tp b)"
proof -
  obtain t p where tp: "tp = (t, p)" by (cases tp)
  have "fst (case get_partition_offsets cl t p rt 1 a of
                (Inl e, st1) \<Rightarrow> (Inl e, st1)
              | (Inr [offset], st1) \<Rightarrow> (Inr offset, st1)
              | (Inr os, st1) \<Rightarrow> (Inl ValueError, st1))
      = fst (case get_partition_offsets cl t p rt 1 b of
                (Inl e, st1) \<Rightarrow> (Inl e, st1)
              | (Inr [offset], st1) \<Rightarrow> (Inr offset, st1)
              | (Inr os, st1) \<Rightarrow> (Inl ValueError, st1))" for rt
    using get_partition_offsets_fst_config [of cl t p rt 1 a b]
    by (cases "get_partition_offsets cl t p rt 1 a"; cases "get_partition_offsets cl t p rt 1 b")
       (auto split: sum.splits list.splits)
  then show ?thesis
    using assms by (simp add: tp reset_partition_offset_def split: option.splits)
qed

lemma get_commit_offsets_loop_step:
  assumes "get_commit_offsets_loop cl (tp0 # tps) st = Inr st'"
    and "truthy (group_id (config st))"
  shows "\<exists>st1. get_commit_offsets_loop cl tps st1 = Inr st' \<and> config st1 = config st \<and>
           topics st1 = topics st \<and>
           fetch_offsets (offsets st1) = fetch_offsets (offsets st) \<and>
           map_of (commit_offsets (offsets st1))
             = (map_of (commit_offsets (offsets st)))(tp0 \<mapsto> stored_commit cl (config st) tp0)"
proof -
  let ?reqs = "[OffsetFetchRequest (fst tp0) (snd tp0)]"
  from assms(1) obtain resp where
    send: "send_offset_fetch_request cl (group_id (config st)) ?reqs = Inr [resp]"
    by (auto simp add: Let_def split: sum.splits list.splits)
  let ?v = "if ofr_offset resp = - 1 then None else Some (ofr_offset resp)"
  let ?st1 = "transmit (OffsetFetchCall (group_id (config st)) ?reqs) st"
  let ?st2 = "?st1\<lparr>offsets := (offsets ?st1)\<lparr>commit_offsets :=
                AList.update tp0 ?v (commit_offsets (offsets ?st1))\<rparr>\<rparr>"
  from assms(1) send have "get_commit_offsets_loop cl tps ?st2 = Inr st'"
    by (auto simp add: Let_def split: sum.splits if_splits)
  moreover have "stored_commit cl (config st) tp0 = ?v"
    using assms(2) send by (simp add: stored_commit_def)
  ultimately show ?thesis
    by (intro exI [where x = ?st2]) (simp add: transmit_def update_conv')
qed

lemma get_commit_offsets_loop_result:
  assumes "get_commit_offsets_loop cl tps st = Inr st'"
    and "truthy (group_id (config st))"
  shows "config st' = config st \<and> topics st' = topics st \<and>
         fetch_offsets (offsets st') = fetch_offsets (offsets st) \<and>
         map_of (commit_offsets (offsets st')) tp
           = (if tp \<in> set tps then Some (stored_commit cl (config st) tp)
              else map_of (commit_offsets (offsets st)) tp)"
  using assms
proof (induction tps arbitrary: st)
  case Nil
  then show ?case by simp
next
  case (Cons tp0 tps)
  from get_commit_offsets_loop_step [OF Cons.prems] obtain st1 where
    rest: "get_commit_offsets_loop cl tps st1 = Inr st'" and c1: "config st1 = config st"
    and t1: "topics st1 = topics st"
    and f1: "fetch_offsets (offsets st1) = fetch_offsets (offsets st)"
    and m1: "map_of (commit_offsets (offsets st1))
             = (map_of (commit_offsets (offsets st)))(tp0 \<mapsto> stored_commit cl (config st) tp0)"
    by blast
  from Cons.prems(2) c1 have "truthy (group_id (config st1))" by simp
  from Cons.IH [OF rest this] show ?case by (simp add: c1 t1 f1 m1)
qed


lemma update_missing_step:
  assumes "update_missing cl (tp0 # tps) st = Inr st'"
  shows "\<exists>st1. update_missing cl tps st1 = Inr st' \<and> config st1 = config st \<and>
           topics st1 = topics st \<and>
           highwater_offsets (offsets st1) = highwater_offsets (offsets st) \<and>
           task_done_offsets (offsets st1) = task_done_offsets (offsets st) \<and>
           (\<forall>tp. tp \<noteq> tp0 \<longrightarrow>
              map_of (commit_offsets (offsets st1)) tp = map_of (commit_offsets (offsets st)) tp \<and>
              map_of (fetch_offsets (offsets st1)) tp = map_of (fetch_offsets (offsets st)) tp) \<and>
           map_of (commit_offsets (offsets st1)) tp0
             = (if map_of (commit_offsets (offsets st)) tp0 = None then Some None
                else map_of (commit_offsets (offsets st)) tp0) \<and>
           filled cl st st1 tp0"
proof -
  define sa where "sa = (if map_of (commit_offsets (offsets st)) tp0 = None
                 then st\<lparr>offsets := (offsets st)\<lparr>commit_offsets :=
                        AList.update tp0 None (commit_offsets (offsets st))\<rparr>\<rparr>
                 else st)"
  have c1: "config sa = config st" "topics sa = topics st"
    "highwater_offsets (offsets sa) = highwater_offsets (offsets st)"
    "task_done_offsets (offsets sa) = task_done_offsets (offsets st)"
    "fetch_offsets (offsets sa) = fetch_offsets (offsets st)"
    by (simp_all add: sa_def)
  have cm1: "map_of (commit_offsets (offsets sa)) tp
               = (if tp = tp0 \<and> map_of (commit_offsets (offsets st)) tp0 = None then Some None
                  else map_of (commit_offsets (offsets st)) tp)" for tp
    by (simp add: sa_def update_conv')
  have unfold: "update_missing cl (tp0 # tps) st =
      (if map_of (fetch_offsets (offsets st)) tp0 = None then
           (case map_of (commit_offsets (offsets sa)) tp0 of
              Some (Some c) \<Rightarrow> update_missing cl tps (store_fetch tp0 (VInt c) sa)
            | _ \<Rightarrow>
                (case reset_partition_offset cl None tp0 sa of
                   (Inl e, st2) \<Rightarrow> Inl e
                 | (Inr v, st2) \<Rightarrow> update_missing cl tps (store_fetch tp0 (VInt v) st2)))
         else update_missing cl tps sa)"
    unfolding sa_def by (auto simp add: Let_def)
  have same_reset: "fst (reset_partition_offset cl None tp0 sa)
                      = fst (reset_partition_offset cl None tp0 st)"
    by (rule reset_fst_config) (simp only: c1)
  have conclude: ?thesis
    if "update_missing cl tps sb = Inr st'" and "filled cl st sb tp0"
      and "config sb = config sa" and "topics sb = topics sa"
      and "highwater_offsets (offsets sb) = highwater_offsets (offsets sa)"
      and "task_done_offsets (offsets sb) = task_done_offsets (offsets sa)"
      and "commit_offsets (offsets sb) = commit_offsets (offsets sa)"
      and "\<And>tp. tp \<noteq> tp0 \<Longrightarrow> map_of (fetch_offsets (offsets sb)) tp
                                  = map_of (fetch_offsets (offsets sa)) tp" for sb
    using that c1 cm1 by (intro exI [where x = sb]) (simp del: split_paired_All)
  have via_reset: ?thesis
    if rs: "reset_partition_offset cl None tp0 sa = (Inr v, st2)"
      and rest: "update_missing cl tps (store_fetch tp0 (VInt v) st2) = Inr st'"
      and nofetch: "map_of (fetch_offsets (offsets st)) tp0 = None"
      and nocommit: "map_of (commit_offsets (offsets st)) tp0 = None
                     \<or> map_of (commit_offsets (offsets st)) tp0 = Some None" for v st2
  proof -
    obtain reqs where st2: "st2 = sa\<lparr>sent := sent sa @ map OffsetCall reqs\<rparr>"
      using reset_partition_offset_frame [of cl None tp0 sa] rs by auto
    have "fst (reset_partition_offset cl None tp0 st) = Inr v"
      using same_reset rs by simp
    then have "filled cl st (store_fetch tp0 (VInt v) st2) tp0"
      using nofetch nocommit by (auto simp add: filled_def store_fetch_lookup)
    with rest show ?thesis
      by (rule conclude) (simp_all add: st2 store_fetch_def update_conv')
  qed
  show ?thesis
  proof (cases "map_of (fetch_offsets (offsets st)) tp0")
    case (Some v)
    with assms have "update_missing cl tps sa = Inr st'" by (simp only: unfold) simp
    moreover have "filled cl st sa tp0" using Some by (simp add: filled_def c1)
    ultimately show ?thesis by (rule conclude) simp_all
  next
    case None
    show ?thesis
    proof (cases "map_of (commit_offsets (offsets st)) tp0")
      case (Some cv)
      then have csa: "map_of (commit_offsets (offsets sa)) tp0 = Some cv" by (simp add: cm1)
      show ?thesis
      proof (cases cv)
        case (Some c)
        from assms None csa Some
        have rest: "update_missing cl tps (store_fetch tp0 (VInt c) sa) = Inr st'"
          by (simp only: unfold) simp
        have "filled cl st (store_fetch tp0 (VInt c) sa) tp0"
          using None \<open>map_of (commit_offsets (offsets st)) tp0 = Some cv\<close> Some
          by (simp add: filled_def store_fetch_lookup)
        with rest show ?thesis
          by (rule conclude) (simp_all add: store_fetch_def update_conv')
      next
        case None
        from assms \<open>map_of (fetch_offsets (offsets st)) tp0 = None\<close> csa None
        obtain v st2 where "reset_partition_offset cl None tp0 sa = (Inr v, st2)"
          and "update_missing cl tps (store_fetch tp0 (VInt v) st2) = Inr st'"
          by (simp only: unfold) (auto split: prod.splits sum.splits)
        then show ?thesis
          using \<open>map_of (fetch_offsets (offsets st)) tp0 = None\<close>
            \<open>map_of (commit_offsets (offsets st)) tp0 = Some cv\<close> None
          by (intro via_reset) simp_all
      qed
    next
      case None
      then have csa: "map_of (commit_offsets (offsets sa)) tp0 = Some None" by (simp add: cm1)
      from assms \<open>map_of (fetch_offsets (offsets st)) tp0 = None\<close> csa
      obtain v st2 where "reset_partition_offset cl None tp0 sa = (Inr v, st2)"
        and "update_missing cl tps (store_fetch tp0 (VInt v) st2) = Inr st'"
        by (simp only: unfold) (auto split: prod.splits sum.splits)
      then show ?thesis
        using \<open>map_of (fetch_offsets (offsets st)) tp0 = None\<close> None
        by (intro via_reset) simp_all
    qed
  qed
qed


lemma filled_Some:
  assumes "filled cl st st' tp"
  shows "\<exists>x. map_of (fetch_offsets (offsets st')) tp = Some x"
  using assms by (auto simp add: filled_def split: option.splits)

lemma filled_target:
  assumes "filled cl st a tp"
    and "map_of (fetch_offsets (offsets b)) tp = map_of (fetch_offsets (offsets a)) tp"
  shows "filled cl st b tp"
  using assms(1) unfolding filled_def assms(2) .

lemma filled_from_Some:
  assumes "filled cl a b tp" and "map_of (fetch_offsets (offsets a)) tp = Some x"
  shows "map_of (fetch_offsets (offsets b)) tp = Some x"
  using assms(1) unfolding filled_def assms(2) by simp

lemma filled_source:
  assumes "filled cl a st' tp"
    and "map_of (fetch_offsets (offsets a)) tp = map_of (fetch_offsets (offsets st)) tp"
    and "map_of (commit_offsets (offsets a)) tp = map_of (commit_offsets (offsets st)) tp"
    and "config a = config st"
  shows "filled cl st st' tp"
  using assms(1)
  unfolding filled_def assms(2) assms(3) reset_fst_config [OF assms(4), of cl None tp] .

lemma update_missing_result:
  assumes "update_missing cl tps st = Inr st'"
  shows "config st' = config st \<and> topics st' = topics st \<and>
         highwater_offsets (offsets st') = highwater_offsets (offsets st) \<and>
         task_done_offsets (offsets st') = task_done_offsets (offsets st) \<and>
         map_of (commit_offsets (offsets st')) tp
           = (if tp \<in> set tps \<and> map_of (commit_offsets (offsets st)) tp = None then Some None
              else map_of (commit_offsets (offsets st)) tp) \<and>
         (if tp \<in> set tps then filled cl st st' tp
          else map_of (fetch_offsets (offsets st')) tp = map_of (fetch_offsets (offsets st)) tp)"
  using assms
proof (induction tps arbitrary: st)
  case Nil
  then show ?case by simp
next
  case (Cons tp0 tps)
  from update_missing_step [OF Cons.prems] obtain st1 where
    all: "update_missing cl tps st1 = Inr st' \<and> config st1 = config st \<and>
           topics st1 = topics st \<and>
           highwater_offsets (offsets st1) = highwater_offsets (offsets st) \<and>
           task_done_offsets (offsets st1) = task_done_offsets (offsets st) \<and>
           (\<forall>tp. tp \<noteq> tp0 \<longrightarrow>
              map_of (commit_offsets (offsets st1)) tp = map_of (commit_offsets (offsets st)) tp \<and>
              map_of (fetch_offsets (offsets st1)) tp = map_of (fetch_offsets (offsets st)) tp) \<and>
           map_of (commit_offsets (offsets st1)) tp0
             = (if map_of (commit_offsets (offsets st)) tp0 = None then Some None
                else map_of (commit_offsets (offsets st)) tp0) \<and>
           filled cl st st1 tp0" ..
  from all have rest: "update_missing cl tps st1 = Inr st'" by (rule conjunct1)
  from all have frame1: "config st1 = config st" by (elim conjE)
  from all have frame2: "topics st1 = topics st" by (elim conjE)
  from all have frame3: "highwater_offsets (offsets st1) = highwater_offsets (offsets st)"
    by (elim conjE)
  from all have frame4: "task_done_offsets (offsets st1) = task_done_offsets (offsets st)"
    by (elim conjE)
  note frame = frame1 frame2 frame3 frame4
  from all have others: "tp \<noteq> tp0 \<Longrightarrow>
              map_of (commit_offsets (offsets st1)) tp = map_of (commit_offsets (offsets st)) tp \<and>
              map_of (fetch_offsets (offsets st1)) tp = map_of (fetch_offsets (offsets st)) tp" for tp
    by (elim conjE) (erule allE [where x = tp], erule (1) mp)
  from all have c0: "map_of (commit_offsets (offsets st1)) tp0
             = (if map_of (commit_offsets (offsets st)) tp0 = None then Some None
                else map_of (commit_offsets (offsets st)) tp0)"
    by (elim conjE)
  from all have f0: "filled cl st st1 tp0" by (elim conjE)
  note IH = Cons.IH [OF rest]
  from IH frame have fr: "config st' = config st" "topics st' = topics st"
    "highwater_offsets (offsets st') = highwater_offsets (offsets st)"
    "task_done_offsets (offsets st') = task_done_offsets (offsets st)"
    by simp_all
  from IH have cm: "map_of (commit_offsets (offsets st')) tp
           = (if tp \<in> set tps \<and> map_of (commit_offsets (offsets st1)) tp = None then Some None
              else map_of (commit_offsets (offsets st1)) tp)"
    and ft: "if tp \<in> set tps then filled cl st1 st' tp
          else map_of (fetch_offsets (offsets st')) tp = map_of (fetch_offsets (offsets st1)) tp"
    by simp_all
  show ?case
  proof (cases "tp = tp0")
    case True
    from f0 obtain x where x: "map_of (fetch_offsets (offsets st1)) tp0 = Some x"
      using filled_Some by blast
    have same: "map_of (fetch_offsets (offsets st')) tp0
                  = map_of (fetch_offsets (offsets st1)) tp0"
    proof (cases "tp0 \<in> set tps")
      case True
      with ft \<open>tp = tp0\<close> have "filled cl st1 st' tp0" by simp
      from filled_from_Some [OF this x] x show ?thesis by simp
    next
      case False
      with ft \<open>tp = tp0\<close> show ?thesis by simp
    qed
    from f0 same have fl: "filled cl st st' tp0" by (rule filled_target)
    have ne: "map_of (commit_offsets (offsets st1)) tp0 \<noteq> None"
      unfolding c0 by simp
    have "map_of (commit_offsets (offsets st')) tp0 = map_of (commit_offsets (offsets st1)) tp0"
      using cm ne unfolding True by simp
    then have cm0: "map_of (commit_offsets (offsets st')) tp0
           = (if map_of (commit_offsets (offsets st)) tp0 = None then Some None
              else map_of (commit_offsets (offsets st)) tp0)"
      unfolding c0 .
    show ?thesis
      unfolding True using fl cm0 fr by simp
  next
    case False
    note o = others [OF False]
    have "if tp \<in> set tps then filled cl st st' tp
          else map_of (fetch_offsets (offsets st')) tp = map_of (fetch_offsets (offsets st)) tp"
    proof (cases "tp \<in> set tps")
      case True
      with ft have flt: "filled cl st1 st' tp" by simp
      from o have o2: "map_of (commit_offsets (offsets st1)) tp
                         = map_of (commit_offsets (offsets st)) tp" by (rule conjunct1)
      from o have o1: "map_of (fetch_offsets (offsets st1)) tp
                         = map_of (fetch_offsets (offsets st)) tp" by (rule conjunct2)
      have "filled cl st st' tp" by (rule filled_source [OF flt o1 o2 frame(1)])
      with True show ?thesis by simp
    next
      case False
      with ft o show ?thesis by simp
    qed
    with False cm o fr show ?thesis by simp
  qed
qed

lemma fold_update_None:
  "map_of (fold (\<lambda>tp al. AList.update tp None al) tps al) tp
     = (if tp \<in> set tps then Some None else map_of al tp)"
proof (induction tps arbitrary: al)
  case Nil
  then show ?case by simp
next
  case (Cons tp0 tps)
  have "map_of (fold (\<lambda>tp al. AList.update tp None al) (tp0 # tps) al) tp
          = map_of (fold (\<lambda>tp al. AList.update tp None al) tps (AList.update tp0 None al)) tp"
    by simp
  also have "\<dots> = (if tp \<in> set tps then Some None else map_of (AList.update tp0 None al) tp)"
    by (rule Cons.IH)
  also have "\<dots> = (if tp \<in> set (tp0 # tps) then Some None else map_of al tp)"
    by (simp add: update_conv')
  finally show ?case .
qed


lemma reset_offsets_lookup:
  "fetch_offsets (offsets (reset_task_done_offsets (reset_highwater_offsets st)))
     = fetch_offsets (offsets st)"
  "commit_offsets (offsets (reset_task_done_offsets (reset_highwater_offsets st)))
     = commit_offsets (offsets st)"
  "topics (reset_task_done_offsets (reset_highwater_offsets st)) = topics st"
  "map_of (highwater_offsets (offsets (reset_task_done_offsets (reset_highwater_offsets st)))) tp
     = (if tp \<in> set (topics st) then Some None
        else map_of (highwater_offsets (offsets st)) tp)"
  "map_of (task_done_offsets (offsets (reset_task_done_offsets (reset_highwater_offsets st)))) tp
     = (if tp \<in> set (topics st) then Some None
        else map_of (task_done_offsets (offsets st)) tp)"
  by (simp_all add: reset_task_done_offsets_def reset_highwater_offsets_def fold_update_None)

lemma set_topic_partitions_phases:
  assumes "set_topic_partitions cl args st = Inr st'"
  shows "\<exists>st2 st3 st4.
           explicit_offset args = map_of (fetch_offsets (offsets st2)) \<and>
           commit_offsets (offsets st2) = [] \<and> config st2 = config st \<and>
           (if truthy (group_id (config st2)) then get_commit_offsets_loop cl (topics st2) st2
            else Inr st2) = Inr st3 \<and>
           update_missing cl (topics st3) st3 = Inr st4 \<and>
           st' = reset_task_done_offsets (reset_highwater_offsets st4)"
proof -
  from assms obtain metadata where "load_metadata_for_topics cl = Inr metadata"
    by (auto simp add: set_topic_partitions_def split: sum.splits)
  let ?st1 = "(transmit MetadataCall st)
                       \<lparr>topic_partitions := metadata, topics := [],
                        offsets := \<lparr>fetch_offsets = [], highwater_offsets = [],
                                    commit_offsets = [], task_done_offsets = []\<rparr>\<rparr>"
  from assms \<open>load_metadata_for_topics cl = Inr metadata\<close> obtain st2 st3 st4 where
    args: "consume_args args ?st1 = Inr st2"
    and grp: "(if truthy (group_id (config st2)) then get_commit_offsets cl st2
              else Inr st2) = Inr st3"
    and upd: "update_missing cl (topics st3) st3 = Inr st4"
    and st': "st' = reset_task_done_offsets (reset_highwater_offsets st4)"
    by (auto simp add: set_topic_partitions_def Let_def split: sum.splits)
  from consume_args_fetch [OF args] have k: "kept ?st1 st2"
    and f: "map_of (fetch_offsets (offsets st2))
              = map_of (fetch_offsets (offsets ?st1)) ++ explicit_offset args"
    by simp_all
  have "explicit_offset args = map_of (fetch_offsets (offsets st2))"
    by (simp add: f)
  moreover have "commit_offsets (offsets st2) = []" "config st2 = config st"
    using k by (simp_all add: kept_def transmit_def)
  ultimately show ?thesis
    using grp upd st' unfolding get_commit_offsets_def by blast
qed


text \<open>
  C1. After \<^verbatim>\<open>set_topic_partitions\<close> has returned, for every assigned partition: the
  fetch cursor is the explicit starting offset given for it in the input if there is one;
  otherwise the group's stored commit offset if there is one; otherwise an offset that the
  reset policy resolves for the partition. The commit cursor is the stored commit offset
  (\<^verbatim>\<open>None\<close> if there is none), and the highwater and task-done cursors are
  \<^verbatim>\<open>None\<close>.
\<close>

theorem set_topic_partitions_cursors:
  assumes "set_topic_partitions cl args st = Inr st'" and "tp \<in> set (topics st')"
  shows "(case explicit_offset args tp of
            Some v \<Rightarrow> map_of (fetch_offsets (offsets st')) tp = Some v
          | None \<Rightarrow>
              (case stored_commit cl (config st) tp of
                 Some c \<Rightarrow> map_of (fetch_offsets (offsets st')) tp = Some (VInt c)
               | None \<Rightarrow>
                   (\<exists>v. fst (reset_partition_offset cl None tp st) = Inr v \<and>
                        map_of (fetch_offsets (offsets st')) tp = Some (VInt v))))
       \<and> map_of (commit_offsets (offsets st')) tp = Some (stored_commit cl (config st) tp)
       \<and> map_of (highwater_offsets (offsets st')) tp = Some None
       \<and> map_of (task_done_offsets (offsets st')) tp = Some None"
proof -
  from set_topic_partitions_phases [OF assms(1)] obtain st2 st3 st4 where
    ex: "explicit_offset args = map_of (fetch_offsets (offsets st2))"
    and c2: "commit_offsets (offsets st2) = []" and cfg2: "config st2 = config st"
    and grp: "(if truthy (group_id (config st2)) then get_commit_offsets_loop cl (topics st2) st2
            else Inr st2) = Inr st3"
    and upd: "update_missing cl (topics st3) st3 = Inr st4"
    and st': "st' = reset_task_done_offsets (reset_highwater_offsets st4)"
    by blast
  let ?S = "stored_commit cl (config st) tp"
  from update_missing_result [OF upd, of tp]
  have cfg4: "config st4 = config st3" and top4: "topics st4 = topics st3"
    and cm4: "map_of (commit_offsets (offsets st4)) tp
           = (if tp \<in> set (topics st3) \<and> map_of (commit_offsets (offsets st3)) tp = None
              then Some None else map_of (commit_offsets (offsets st3)) tp)"
    and fl4: "if tp \<in> set (topics st3) then filled cl st3 st4 tp
          else map_of (fetch_offsets (offsets st4)) tp = map_of (fetch_offsets (offsets st3)) tp"
    by simp_all
  from assms(2) have in3: "tp \<in> set (topics st3)"
    by (simp add: st' reset_offsets_lookup top4)
  have st3: "config st3 = config st \<and> topics st3 = topics st2 \<and>
             fetch_offsets (offsets st3) = fetch_offsets (offsets st2) \<and>
             map_of (commit_offsets (offsets st3)) tp
               = (if truthy (group_id (config st)) then Some ?S else None) \<and>
             (\<not> truthy (group_id (config st)) \<longrightarrow> ?S = None)"
  proof (cases "truthy (group_id (config st))")
    case True
    with grp cfg2 have loop: "get_commit_offsets_loop cl (topics st2) st2 = Inr st3" by simp
    from True cfg2 have t2: "truthy (group_id (config st2))" by simp
    from get_commit_offsets_loop_result [OF loop t2, of tp]
    have r: "config st3 = config st2" "topics st3 = topics st2"
      "fetch_offsets (offsets st3) = fetch_offsets (offsets st2)"
      "map_of (commit_offsets (offsets st3)) tp
           = (if tp \<in> set (topics st2) then Some (stored_commit cl (config st2) tp)
              else map_of (commit_offsets (offsets st2)) tp)"
      by simp_all
    from in3 r(2) have "tp \<in> set (topics st2)" by simp
    with r True cfg2 show ?thesis by simp
  next
    case False
    with grp cfg2 have "st3 = st2" by simp
    with False c2 cfg2 show ?thesis by (simp add: stored_commit_def)
  qed
  then have cfg3: "config st3 = config st"
    and f3: "map_of (fetch_offsets (offsets st3)) tp = explicit_offset args tp"
    and cm3: "map_of (commit_offsets (offsets st3)) tp
               = (if truthy (group_id (config st)) then Some ?S else None)"
    and noS: "\<not> truthy (group_id (config st)) \<Longrightarrow> ?S = None"
    by (simp_all add: ex)
  from fl4 in3 have fl: "filled cl st3 st4 tp" by simp
  have rs: "fst (reset_partition_offset cl None tp st3) = fst (reset_partition_offset cl None tp st)"
    using cfg3 by (rule reset_fst_config)
  have f': "map_of (fetch_offsets (offsets st')) tp = map_of (fetch_offsets (offsets st4)) tp"
    by (simp add: st' reset_offsets_lookup)
  have fetch: "case explicit_offset args tp of
            Some v \<Rightarrow> map_of (fetch_offsets (offsets st')) tp = Some v
          | None \<Rightarrow>
              (case ?S of
                 Some c \<Rightarrow> map_of (fetch_offsets (offsets st')) tp = Some (VInt c)
               | None \<Rightarrow>
                   (\<exists>v. fst (reset_partition_offset cl None tp st) = Inr v \<and>
                        map_of (fetch_offsets (offsets st')) tp = Some (VInt v)))"
  proof (cases "explicit_offset args tp")
    case (Some v)
    with fl f3 have "map_of (fetch_offsets (offsets st4)) tp = Some v"
      by (simp add: filled_def)
    with Some f' show ?thesis by simp
  next
    case None
    note noex = None
    show ?thesis
    proof (cases ?S)
      case (Some c)
      then have "truthy (group_id (config st))" using noS by auto
      with cm3 Some have "map_of (commit_offsets (offsets st3)) tp = Some (Some c)" by simp
      with fl f3 noex have "map_of (fetch_offsets (offsets st4)) tp = Some (VInt c)"
        by (simp add: filled_def)
      with noex Some f' show ?thesis by simp
    next
      case None
      with cm3 have "map_of (commit_offsets (offsets st3)) tp = None
                   \<or> map_of (commit_offsets (offsets st3)) tp = Some None"
        by (simp split: if_splits)
      with fl f3 noex have "\<exists>v. fst (reset_partition_offset cl None tp st3) = Inr v \<and>
                    map_of (fetch_offsets (offsets st4)) tp = Some (VInt v)"
        by (auto simp add: filled_def)
      with noex None f' rs show ?thesis by simp
    qed
  qed
  have commit: "map_of (commit_offsets (offsets st')) tp = Some ?S"
  proof -
    have "map_of (commit_offsets (offsets st')) tp = map_of (commit_offsets (offsets st4)) tp"
      by (simp add: st' reset_offsets_lookup)
    also have "\<dots> = Some ?S"
      using cm4 in3 cm3 noS by (cases "truthy (group_id (config st))") simp_all
    finally show ?thesis .
  qed
  from assms(2) have in4: "tp \<in> set (topics st4)" by (simp add: st' reset_offsets_lookup)
  have "map_of (highwater_offsets (offsets st')) tp = Some None"
    and "map_of (task_done_offsets (offsets st')) tp = Some None"
    using in4 by (simp_all add: st' reset_offsets_lookup)
  with fetch commit show ?thesis by blast
qed


theorem set_topic_partitions_cursors_witness:
  "(case set_topic_partitions example_client [VStr ''orders''] (fresh_consumer example_config) of
      Inl e \<Rightarrow> False
    | Inr st' \<Rightarrow>
        map_of (fetch_offsets (offsets st')) (''orders'', 0) = Some (VInt 42) \<and>
        map_of (fetch_offsets (offsets st')) (''orders'', 1) = Some (VInt 100) \<and>
        map_of (highwater_offsets (offsets st')) (''orders'', 0) = Some None \<and>
        map_of (task_done_offsets (offsets st')) (''orders'', 0) = Some None)
 \<and> (case set_topic_partitions example_client
           [VDict [(VTuple [VStr ''orders'', VInt 0], VInt 7)]] (fresh_consumer example_config) of
      Inl e \<Rightarrow> False
    | Inr st' \<Rightarrow> map_of (fetch_offsets (offsets st')) (''orders'', 0) = Some (VInt 7))"
proof -
  let ?st = "fresh_consumer example_config"
  let ?byname = "[VStr ''orders'']"
  let ?byoffset = "[VDict [(VTuple [VStr ''orders'', VInt 0], VInt 7)]]"
  have "\<exists>s. set_topic_partitions example_client ?byname ?st = Inr s \<and>
             topics s = [(''orders'', 0), (''orders'', 1)]"
    by (simp add: set_topic_partitions_def example_client_def fresh_consumer_def
          example_config_def transmit_def get_partition_ids_for_topic_def
          consume_topic_partition_def truthy_def get_commit_offsets_def check_error_def
          reset_partition_offset_def get_partition_offsets_def LATEST_def store_fetch_def
          reset_highwater_offsets_def reset_task_done_offsets_def Let_def)
  then obtain s1 where r1: "set_topic_partitions example_client ?byname ?st = Inr s1"
    and t1: "topics s1 = [(''orders'', 0), (''orders'', 1)]" by blast
  have "\<exists>s. set_topic_partitions example_client ?byoffset ?st = Inr s \<and>
             topics s = [(''orders'', 0)]"
    by (simp add: set_topic_partitions_def example_client_def fresh_consumer_def
          example_config_def transmit_def get_partition_ids_for_topic_def
          consume_topic_partition_def truthy_def get_commit_offsets_def check_error_def
          store_fetch_def reset_highwater_offsets_def reset_task_done_offsets_def Let_def)
  then obtain s2 where r2: "set_topic_partitions example_client ?byoffset ?st = Inr s2"
    and t2: "topics s2 = [(''orders'', 0)]" by blast
  have m0: "(''orders'', 0) \<in> set (topics s1)" and m1: "(''orders'', 1) \<in> set (topics s1)"
    by (simp_all add: t1)
  have m2: "(''orders'', 0) \<in> set (topics s2)" by (simp add: t2)
  have x1: "explicit_offset ?byname tp = None" for tp by (simp add: explicit_offset_def)
  have x2: "explicit_offset ?byoffset (''orders'', 0) = Some (VInt 7)"
    by (simp add: explicit_offset_def)
  have c0: "stored_commit example_client (config ?st) (''orders'', 0) = Some 42"
    and c1: "stored_commit example_client (config ?st) (''orders'', 1) = None"
    by (simp_all add: stored_commit_def fresh_consumer_def example_config_def
          example_client_def truthy_def)
  have rv: "fst (reset_partition_offset example_client None (''orders'', 1) ?st) = Inr 100"
    by (simp add: reset_partition_offset_def get_partition_offsets_def fresh_consumer_def
          example_config_def example_client_def LATEST_def check_error_def transmit_def Let_def)
  have a: "map_of (fetch_offsets (offsets s1)) (''orders'', 0) = Some (VInt 42) \<and>
           map_of (highwater_offsets (offsets s1)) (''orders'', 0) = Some None \<and>
           map_of (task_done_offsets (offsets s1)) (''orders'', 0) = Some None"
    using set_topic_partitions_cursors [OF r1 m0] unfolding x1 c0 by simp
  have b: "map_of (fetch_offsets (offsets s1)) (''orders'', 1) = Some (VInt 100)"
    using set_topic_partitions_cursors [OF r1 m1] unfolding x1 c1 rv by simp
  have c: "map_of (fetch_offsets (offsets s2)) (''orders'', 0) = Some (VInt 7)"
    using set_topic_partitions_cursors [OF r2 m2] unfolding x2 by simp
  show ?thesis unfolding r1 r2 using a b c by simp
qed

end
